theory Spec2Isabelle
  imports Complex_Main "HOL-Library.Word"
begin

section \<open>Errors and option descriptors\<close>

text \<open>
  The C++ sources signal failure by throwing. \<open>std::invalid_argument\<close> (thrown by every
  constructor check) is \<open>InvalidParameter\<close>; the two \<open>std::runtime_error\<close>s of
  \<open>BlackScholes::impliedVolatility\<close> are told apart by their message:
  "Vega too small, cannot compute implied volatility" is \<open>VegaTooSmall\<close> and
  "Implied volatility did not converge" is \<open>ConvergenceFailure\<close>.

  A C++ \<open>double\<close> is modelled as a \<open>real\<close>: arithmetic is exact, there is no rounding,
  no overflow and no NaN. The one exception is the result record of the Monte Carlo
  valuations (\<open>make_result\<close> below), whose fields are rounded to doubles. An \<open>int\<close> is
  modelled as an \<open>int\<close>; the counts it holds are only compared with zero, converted to
  \<open>double\<close> and changed by one. A division whose divisor can be zero on a reachable input
  is written with \<open>fdiv\<close>, whose \<open>None\<close> stands for the non-finite value (NaN or an
  infinity) that IEEE arithmetic produces there.
\<close>

datatype error = InvalidParameter | VegaTooSmall | ConvergenceFailure

datatype OptionType = CALL | PUT

datatype ExerciseStyle = EUROPEAN | AMERICAN

section \<open>BlackScholes.cpp\<close>

record BlackScholes =
  bs_S :: real
  bs_K :: real
  bs_r :: real
  bs_T :: real
  bs_sigma :: real

text \<open>The constructor: the rate is stored unchecked, the other four must be positive.\<close>

definition BlackScholes_new :: "real \<Rightarrow> real \<Rightarrow> real \<Rightarrow> real \<Rightarrow> real \<Rightarrow> error + BlackScholes" where
  "BlackScholes_new S K r T sigma =
     (if S \<le> 0 \<or> K \<le> 0 \<or> T \<le> 0 \<or> sigma \<le> 0 then Inl InvalidParameter
      else Inr \<lparr>bs_S = S, bs_K = K, bs_r = r, bs_T = T, bs_sigma = sigma\<rparr>)"

text \<open>
  \<open>std::erfc\<close>, \<open>M_SQRT1_2\<close> and \<open>M_PI\<close> come from the C library, not from the
  repository. The error function is given by its Maclaurin series
  \<open>erf x = 2/\<surd>\<pi> \<cdot> \<Sum>n. (-1)^n x^(2n+1) / (n! (2n+1))\<close>, which converges for every \<open>x\<close>.
\<close>

definition erf_term :: "real \<Rightarrow> nat \<Rightarrow> real" where
  "erf_term x n = (- 1) ^ n * x ^ (2 * n + 1) / (fact n * real (2 * n + 1))"

definition erf :: "real \<Rightarrow> real" where
  "erf x = 2 / sqrt pi * (\<Sum>n. erf_term x n)"

definition erfc :: "real \<Rightarrow> real" where
  "erfc x = 1 - erf x"

definition M_SQRT1_2 :: real where
  "M_SQRT1_2 = 1 / sqrt 2"

definition M_PI :: real where
  "M_PI = pi"

definition normalCDF :: "real \<Rightarrow> real" where
  "normalCDF x = 0.5 * erfc (- x * M_SQRT1_2)"

definition normalPDF :: "real \<Rightarrow> real" where
  "normalPDF x = exp (- 0.5 * x * x) / sqrt (2.0 * M_PI)"

definition d1 :: "BlackScholes \<Rightarrow> real" where
  "d1 bs = (ln (bs_S bs / bs_K bs) + (bs_r bs + 0.5 * bs_sigma bs * bs_sigma bs) * bs_T bs)
             / (bs_sigma bs * sqrt (bs_T bs))"

definition d2 :: "BlackScholes \<Rightarrow> real" where
  "d2 bs = d1 bs - bs_sigma bs * sqrt (bs_T bs)"

definition callPrice :: "BlackScholes \<Rightarrow> real" where
  "callPrice bs =
     (let d1_val = d1 bs; d2_val = d2 bs
      in bs_S bs * normalCDF d1_val - bs_K bs * exp (- bs_r bs * bs_T bs) * normalCDF d2_val)"

definition putPrice :: "BlackScholes \<Rightarrow> real" where
  "putPrice bs =
     (let d1_val = d1 bs; d2_val = d2 bs
      in bs_K bs * exp (- bs_r bs * bs_T bs) * normalCDF (- d2_val) - bs_S bs * normalCDF (- d1_val))"

definition price :: "BlackScholes \<Rightarrow> OptionType \<Rightarrow> real" where
  "price bs type = (if type = CALL then callPrice bs else putPrice bs)"

definition vega :: "BlackScholes \<Rightarrow> real" where
  "vega bs = (let d1_val = d1 bs in bs_S bs * normalPDF d1_val * sqrt (bs_T bs))"

text \<open>
  One pass through the body of the Newton-Raphson loop of \<open>impliedVolatility\<close>, started
  with the current \<open>sigma\<close>: it returns (\<open>Converged\<close>), throws (\<open>Failed\<close>) or goes
  round again with the clamped Newton update (\<open>Iterate\<close>).
\<close>

datatype iv_step_result = Converged real | Failed error | Iterate real

definition iv_step ::
  "real \<Rightarrow> real \<Rightarrow> real \<Rightarrow> real \<Rightarrow> real \<Rightarrow> OptionType \<Rightarrow> real \<Rightarrow> real \<Rightarrow> iv_step_result" where
  "iv_step marketPrice S K r T type tolerance sigma =
     (case BlackScholes_new S K r T sigma of
        Inl e \<Rightarrow> Failed e
      | Inr bs \<Rightarrow>
          (let price_val = price bs type;
               diff = price_val - marketPrice
           in if \<bar>diff\<bar> < tolerance then Converged sigma
              else (let vega_val = vega bs
                    in if vega_val < 0.0000000001 then Failed VegaTooSmall
                       else Iterate (max 0.001 (min (sigma - diff / vega_val) 5.0)))))"

text \<open>
  The \<open>for\<close> loop, by the number of iterations still allowed; \<open>step\<close> is the loop
  body with the arguments of the call filled in.
\<close>

fun iv_loop :: "(real \<Rightarrow> iv_step_result) \<Rightarrow> nat \<Rightarrow> real \<Rightarrow> error + real" where
  "iv_loop step 0 sigma = Inl ConvergenceFailure"
| "iv_loop step (Suc n) sigma =
     (case step sigma of
        Converged s \<Rightarrow> Inr s
      | Failed e \<Rightarrow> Inl e
      | Iterate sigma' \<Rightarrow> iv_loop step n sigma')"

definition impliedVolatility ::
  "real \<Rightarrow> real \<Rightarrow> real \<Rightarrow> real \<Rightarrow> real \<Rightarrow> OptionType \<Rightarrow> real \<Rightarrow> int \<Rightarrow> error + real" where
  "impliedVolatility marketPrice S K r T type tolerance maxIterations =
     iv_loop (iv_step marketPrice S K r T type tolerance) (nat maxIterations) 0.2"

text \<open>
  The volatility with which iteration \<open>i\<close> (counted from 0) of the loop starts, when the
  loop started at \<open>sigma0\<close> gets that far; \<open>None\<close> when an earlier iteration returned
  or threw.
\<close>

fun iv_sigma :: "(real \<Rightarrow> iv_step_result) \<Rightarrow> real \<Rightarrow> nat \<Rightarrow> real option" where
  "iv_sigma step sigma0 0 = Some sigma0"
| "iv_sigma step sigma0 (Suc i) =
     (case iv_sigma step sigma0 i of
        None \<Rightarrow> None
      | Some s \<Rightarrow> (case step s of Iterate s' \<Rightarrow> Some s' | _ \<Rightarrow> None))"

text \<open>The pricer that iteration builds for the volatility \<open>sigma\<close>.\<close>

definition bs_at :: "real \<Rightarrow> real \<Rightarrow> real \<Rightarrow> real \<Rightarrow> real \<Rightarrow> BlackScholes" where
  "bs_at S K r T sigma = \<lparr>bs_S = S, bs_K = K, bs_r = r, bs_T = T, bs_sigma = sigma\<rparr>"

section \<open>Option.cpp\<close>

record OptionData =
  opt_strike :: real
  opt_maturity :: real
  opt_type :: OptionType
  opt_style :: ExerciseStyle

text \<open>The base-class constructor, with its two checks in the order of the source.\<close>

definition Option_new :: "real \<Rightarrow> real \<Rightarrow> OptionType \<Rightarrow> ExerciseStyle \<Rightarrow> error + OptionData" where
  "Option_new strike maturity type style =
     (if strike \<le> 0 then Inl InvalidParameter
      else if maturity \<le> 0 then Inl InvalidParameter
      else Inr \<lparr>opt_strike = strike, opt_maturity = maturity, opt_type = type, opt_style = style\<rparr>)"

definition EuropeanOption_new :: "real \<Rightarrow> real \<Rightarrow> OptionType \<Rightarrow> error + OptionData" where
  "EuropeanOption_new strike maturity type = Option_new strike maturity type EUROPEAN"

definition AmericanOption_new :: "real \<Rightarrow> real \<Rightarrow> OptionType \<Rightarrow> error + OptionData" where
  "AmericanOption_new strike maturity type = Option_new strike maturity type AMERICAN"

text \<open>
  \<open>EuropeanOption::payoff\<close> and \<open>AmericanOption::payoff\<close> have the same body; the virtual
  call is one function of the descriptor.
\<close>

definition payoff :: "OptionData \<Rightarrow> real \<Rightarrow> real" where
  "payoff option spot =
     (if opt_type option = CALL then max (spot - opt_strike option) 0.0
      else max (opt_strike option - spot) 0.0)"

section \<open>MonteCarloEngine.cpp\<close>

text \<open>
  \<open>std::mt19937\<close> and \<open>std::normal_distribution\<close> belong to the C++ library. Together
  they are a deterministic source of numbers: the state of the pair is modelled by the
  sequence of standard-normal draws it has still to deliver, and a draw takes the head of
  that sequence. The sequence a seed starts with is a parameter (\<open>normals\<close>) of the
  constructor.
\<close>

type_synonym rng = "nat \<Rightarrow> real"

definition draw :: "rng \<Rightarrow> real \<times> rng" where
  "draw g = (g 0, \<lambda>k. g (Suc k))"

record MCResult =
  res_price :: real
  res_standardError :: "real option"
  res_confidence95Lower :: "real option"
  res_confidence95Upper :: "real option"
  res_numSimulations :: int

record MonteCarloEngine =
  mc_numSimulations :: int
  mc_numSteps :: int
  mc_seed :: "32 word"
  mc_generator :: rng

definition MonteCarloEngine_new ::
  "(32 word \<Rightarrow> rng) \<Rightarrow> int \<Rightarrow> int \<Rightarrow> 32 word \<Rightarrow> error + MonteCarloEngine" where
  "MonteCarloEngine_new normals numSimulations numSteps seed =
     (if numSimulations \<le> 0 \<or> numSteps \<le> 0 then Inl InvalidParameter
      else Inr \<lparr>mc_numSimulations = numSimulations, mc_numSteps = numSteps, mc_seed = seed,
                mc_generator = normals seed\<rparr>)"

text \<open>
  Division of doubles where the divisor can be zero on an engine the constructor accepts:
  \<open>None\<close> is the non-finite result (NaN or an infinity) of IEEE arithmetic. The other
  divisions of this file divide by \<open>numSteps_\<close> or \<open>numSimulations_\<close>, which the
  constructor makes positive; the setters, which could undo that, are not modelled.
\<close>

definition fdiv :: "real \<Rightarrow> real \<Rightarrow> real option" where
  "fdiv x y = (if y = 0 then None else Some (x / y))"

text \<open>The loop of \<open>generatePath\<close>: \<open>n\<close> further points after the point \<open>prev\<close>.\<close>

fun path_loop :: "real \<Rightarrow> real \<Rightarrow> nat \<Rightarrow> real \<Rightarrow> rng \<Rightarrow> real list \<times> rng" where
  "path_loop drift diffusion 0 prev g = ([], g)"
| "path_loop drift diffusion (Suc n) prev g =
     (let (z, g1) = draw g;
          cur = prev * exp (drift + diffusion * z);
          (rest, g2) = path_loop drift diffusion n cur g1
      in (cur # rest, g2))"

definition generatePath ::
  "MonteCarloEngine \<Rightarrow> real \<Rightarrow> real \<Rightarrow> real \<Rightarrow> real \<Rightarrow> real list \<times> MonteCarloEngine" where
  "generatePath eng S0 r sigma T =
     (let dt = T / real_of_int (mc_numSteps eng);
          drift = (r - 0.5 * sigma * sigma) * dt;
          diffusion = sigma * sqrt dt;
          (rest, g) = path_loop drift diffusion (nat (mc_numSteps eng)) S0 (mc_generator eng)
      in (S0 # rest, eng\<lparr>mc_generator := g\<rparr>))"

text \<open>The simulation loop of \<open>priceEuropean\<close>: the payoffs of \<open>n\<close> further paths.\<close>

fun european_payoffs ::
  "OptionData \<Rightarrow> real \<Rightarrow> real \<Rightarrow> real \<Rightarrow> real \<Rightarrow> nat \<Rightarrow> MonteCarloEngine \<Rightarrow> real list \<times> MonteCarloEngine" where
  "european_payoffs option S0 r sigma T 0 eng = ([], eng)"
| "european_payoffs option S0 r sigma T (Suc n) eng =
     (let (path, eng1) = generatePath eng S0 r sigma T;
          finalPrice = path ! nat (mc_numSteps eng);
          p = payoff option finalPrice;
          (rest, eng2) = european_payoffs option S0 r sigma T n eng1
      in (p # rest, eng2))"

text \<open>
  The statistics both valuations end with: \<open>std::accumulate\<close> and the loop for the sum
  of squared deviations.
\<close>

definition accumulate :: "real list \<Rightarrow> real \<Rightarrow> real" where
  "accumulate xs init = fold (\<lambda>x acc. acc + x) xs init"

definition sum_squared :: "real list \<Rightarrow> real \<Rightarrow> real" where
  "sum_squared xs mean = fold (\<lambda>p sumSquared. (let diff = p - mean in sumSquared + diff * diff)) xs 0.0"

text \<open>
  Rounding to the nearest \<open>double\<close>: 53 significant bits, ties to the even significand.
  The exponent is unbounded here, so overflow and subnormal numbers are not modelled.
\<close>

definition round_half_even :: "real \<Rightarrow> int" where
  "round_half_even x =
     (let f = \<lfloor>x\<rfloor>; d = x - of_int f
      in if d < 1 / 2 then f
         else if 1 / 2 < d then f + 1
         else if even f then f else f + 1)"

definition double_round :: "real \<Rightarrow> real" where
  "double_round x =
     (if x = 0 then 0
      else (let e = \<lfloor>log 2 \<bar>x\<bar>\<rfloor> - 52;
                ulp = 2 powr of_int e
            in of_int (round_half_even (x / ulp)) * ulp))"

text \<open>
  The result record, as the last lines of both valuations fill it. Its fields are doubles:
  \<open>price\<close> and \<open>standardError\<close> are the values computed before, held as the nearest
  double (the rounding of the operations that lead to them is not modelled), and the two
  bounds are computed from these two doubles in double arithmetic, the product with the
  literal \<open>1.96\<close> and the difference or sum each rounded to nearest.
\<close>

definition make_result :: "real \<Rightarrow> real option \<Rightarrow> int \<Rightarrow> MCResult" where
  "make_result price_val standardError numSimulations =
     (let price_dbl = double_round price_val;
          standardError_dbl = map_option double_round standardError
      in \<lparr>res_price = price_dbl,
          res_standardError = standardError_dbl,
          res_confidence95Lower =
            map_option (\<lambda>se. double_round (price_dbl - double_round (double_round 1.96 * se)))
              standardError_dbl,
          res_confidence95Upper =
            map_option (\<lambda>se. double_round (price_dbl + double_round (double_round 1.96 * se)))
              standardError_dbl,
          res_numSimulations = numSimulations\<rparr>)"

definition priceEuropean ::
  "MonteCarloEngine \<Rightarrow> OptionData \<Rightarrow> real \<Rightarrow> real \<Rightarrow> real \<Rightarrow> MCResult \<times> MonteCarloEngine" where
  "priceEuropean eng option S0 r sigma =
     (let T = opt_maturity option;
          (payoffs, eng1) = european_payoffs option S0 r sigma T (nat (mc_numSimulations eng)) eng;
          discount = exp (- r * T);
          sum_val = accumulate payoffs 0.0;
          mean = sum_val / real_of_int (mc_numSimulations eng);
          price_val = discount * mean;
          sumSquared = sum_squared payoffs mean;
          variance = fdiv sumSquared (real_of_int (mc_numSimulations eng - 1));
          standardError =
            map_option (\<lambda>v. discount * sqrt (v / real_of_int (mc_numSimulations eng))) variance
      in (make_result price_val standardError (mc_numSimulations eng), eng1))"

text \<open>The path-generation loop of \<open>priceAmerican\<close>: \<open>n\<close> further paths.\<close>

fun generate_paths ::
  "real \<Rightarrow> real \<Rightarrow> real \<Rightarrow> real \<Rightarrow> nat \<Rightarrow> MonteCarloEngine \<Rightarrow> real list list \<times> MonteCarloEngine" where
  "generate_paths S0 r sigma T 0 eng = ([], eng)"
| "generate_paths S0 r sigma T (Suc n) eng =
     (let (path, eng1) = generatePath eng S0 r sigma T;
          (rest, eng2) = generate_paths S0 r sigma T n eng1
      in (path # rest, eng2))"

text \<open>
  One pass of the backward induction, at time step \<open>t\<close>. First the in-the-money paths are
  collected: their indices, their spots \<open>X\<close> and their discounted cash flows \<open>Y\<close>.
\<close>

definition collect_itm ::
  "OptionData \<Rightarrow> real list list \<Rightarrow> real \<Rightarrow> nat \<Rightarrow> nat \<Rightarrow> real list
     \<Rightarrow> nat list \<times> real list \<times> real list" where
  "collect_itm option paths discount numSimulations t cashFlows =
     fold (\<lambda>i (itmIndices, X, Y).
             (let spot = paths ! i ! t;
                  exerciseValue = payoff option spot
              in if exerciseValue > 0
                 then (itmIndices @ [i], X @ [spot], Y @ [cashFlows ! i * discount])
                 else (itmIndices, X, Y)))
          [0..<numSimulations] ([], [], [])"

text \<open>
  The sums for the normal equations of the degree-2 regression, in the order
  \<open>(sum_x, sum_x2, sum_x3, sum_x4, sum_y, sum_xy, sum_x2y)\<close>.
\<close>

definition regression_sums ::
  "real list \<Rightarrow> real list \<Rightarrow> real \<times> real \<times> real \<times> real \<times> real \<times> real \<times> real" where
  "regression_sums X Y =
     fold (\<lambda>i (sum_x, sum_x2, sum_x3, sum_x4, sum_y, sum_xy, sum_x2y).
             (let x = X ! i;
                  y = Y ! i;
                  x2 = x * x
              in (sum_x + x, sum_x2 + x2, sum_x3 + x2 * x, sum_x4 + x2 * x2,
                  sum_y + y, sum_xy + x * y, sum_x2y + x2 * y)))
          [0..<length X] (0, 0, 0, 0, 0, 0, 0)"

text \<open>The exercise decisions of the in-the-money paths, against \<open>meanY\<close>.\<close>

definition exercise_loop ::
  "OptionData \<Rightarrow> real list list \<Rightarrow> real \<Rightarrow> nat \<Rightarrow> real \<Rightarrow> nat list \<Rightarrow> real list \<Rightarrow> real list" where
  "exercise_loop option paths discount t meanY itmIndices cashFlows =
     fold (\<lambda>i cf.
             (let spot = paths ! i ! t;
                  exerciseValue = payoff option spot;
                  continuationValue = meanY
              in if exerciseValue > continuationValue then cf[i := exerciseValue]
                 else cf[i := cf ! i * discount]))
          itmIndices cashFlows"

text \<open>The branch for too few in-the-money paths, and the loop over the other paths.\<close>

definition discount_itm :: "real \<Rightarrow> nat list \<Rightarrow> real list \<Rightarrow> real list" where
  "discount_itm discount itmIndices cashFlows =
     fold (\<lambda>i cf. cf[i := cf ! i * discount]) itmIndices cashFlows"

definition discount_otm :: "real \<Rightarrow> nat list \<Rightarrow> nat \<Rightarrow> real list \<Rightarrow> real list" where
  "discount_otm discount itmIndices numSimulations cashFlows =
     fold (\<lambda>i cf.
             (let isITM = (i \<in> set itmIndices)
              in if \<not> isITM then cf[i := cf ! i * discount] else cf))
          [0..<numSimulations] cashFlows"

definition backward_step ::
  "OptionData \<Rightarrow> real list list \<Rightarrow> real \<Rightarrow> nat \<Rightarrow> nat \<Rightarrow> real list \<Rightarrow> real list" where
  "backward_step option paths discount numSimulations t cashFlows =
     (let (itmIndices, X, Y) = collect_itm option paths discount numSimulations t cashFlows;
          cf1 =
            (if length itmIndices > 10 then
               (let n = length X;
                    (sum_x, sum_x2, sum_x3, sum_x4, sum_y, sum_xy, sum_x2y) = regression_sums X Y;
                    meanY = sum_y / real n
                in exercise_loop option paths discount t meanY itmIndices cashFlows)
             else discount_itm discount itmIndices cashFlows)
      in discount_otm discount itmIndices numSimulations cf1)"

definition priceAmerican ::
  "MonteCarloEngine \<Rightarrow> OptionData \<Rightarrow> real \<Rightarrow> real \<Rightarrow> real \<Rightarrow> MCResult \<times> MonteCarloEngine" where
  "priceAmerican eng option S0 r sigma =
     (let T = opt_maturity option;
          dt = T / real_of_int (mc_numSteps eng);
          discount = exp (- r * dt);
          (paths, eng1) = generate_paths S0 r sigma T (nat (mc_numSimulations eng)) eng;
          cashFlows0 =
            map (\<lambda>i. payoff option (paths ! i ! nat (mc_numSteps eng)))
              [0..<nat (mc_numSimulations eng)];
          cashFlows =
            fold (backward_step option paths discount (nat (mc_numSimulations eng)))
              (rev [1..<nat (mc_numSteps eng)]) cashFlows0;
          sum_val = accumulate cashFlows 0.0;
          mean = sum_val / real_of_int (mc_numSimulations eng);
          price_val = mean * discount;
          sumSquared = sum_squared cashFlows mean;
          variance = fdiv sumSquared (real_of_int (mc_numSimulations eng - 1));
          standardError =
            map_option (\<lambda>v. discount * sqrt (v / real_of_int (mc_numSimulations eng))) variance
      in (make_result price_val standardError (mc_numSimulations eng), eng1))"

text \<open>\<open>MonteCarloEngine::price\<close> chooses the valuation by the exercise style.\<close>

definition MonteCarloEngine_price ::
  "MonteCarloEngine \<Rightarrow> OptionData \<Rightarrow> real \<Rightarrow> real \<Rightarrow> real \<Rightarrow> MCResult \<times> MonteCarloEngine" where
  "MonteCarloEngine_price eng option S0 r sigma =
     (if opt_style option = EUROPEAN then priceEuropean eng option S0 r sigma
      else priceAmerican eng option S0 r sigma)"

section \<open>The statistics and the regression the specification names\<close>

text \<open>
  These follow the words of the specification, not the source, and are what the source is
  compared with: the mean and the unbiased sample variance of a sample (the latter is
  undefined for fewer than two values), and the least-squares fit of \<open>a + b x + c x\<^sup>2\<close>
  through the points \<open>(X ! i, Y ! i)\<close>, obtained from the normal equations by Cramer's rule
  (undefined when their determinant is zero).
\<close>

definition sample_mean :: "real list \<Rightarrow> real" where
  "sample_mean xs = sum_list xs / real (length xs)"

definition unbiased_variance :: "real list \<Rightarrow> real option" where
  "unbiased_variance xs =
     (if length xs < 2 then None
      else Some ((\<Sum>x\<leftarrow>xs. (x - sample_mean xs)\<^sup>2) / real (length xs - 1)))"

definition det3 ::
  "real \<Rightarrow> real \<Rightarrow> real \<Rightarrow> real \<Rightarrow> real \<Rightarrow> real \<Rightarrow> real \<Rightarrow> real \<Rightarrow> real \<Rightarrow> real" where
  "det3 a11 a12 a13 a21 a22 a23 a31 a32 a33 =
     a11 * (a22 * a33 - a23 * a32) - a12 * (a21 * a33 - a23 * a31) + a13 * (a21 * a32 - a22 * a31)"

definition least_squares_quadratic :: "real list \<Rightarrow> real list \<Rightarrow> (real \<times> real \<times> real) option" where
  "least_squares_quadratic X Y =
     (let n = real (length X);
          sx = (\<Sum>i\<leftarrow>[0..<length X]. X ! i);
          sx2 = (\<Sum>i\<leftarrow>[0..<length X]. (X ! i)\<^sup>2);
          sx3 = (\<Sum>i\<leftarrow>[0..<length X]. (X ! i) ^ 3);
          sx4 = (\<Sum>i\<leftarrow>[0..<length X]. (X ! i) ^ 4);
          sy = (\<Sum>i\<leftarrow>[0..<length X]. Y ! i);
          sxy = (\<Sum>i\<leftarrow>[0..<length X]. X ! i * Y ! i);
          sx2y = (\<Sum>i\<leftarrow>[0..<length X]. (X ! i)\<^sup>2 * Y ! i);
          d = det3 n sx sx2 sx sx2 sx3 sx2 sx3 sx4
      in if d = 0 then None
         else Some (det3 sy sx sx2 sxy sx2 sx3 sx2y sx3 sx4 / d,
                    det3 n sy sx2 sx sxy sx3 sx2 sx2y sx4 / d,
                    det3 n sx sy sx sx2 sxy sx2 sx3 sx2y / d))"

definition fitted_prediction :: "real list \<Rightarrow> real list \<Rightarrow> real \<Rightarrow> real option" where
  "fitted_prediction X Y x =
     map_option (\<lambda>(a, b, c). a + b * x + c * x\<^sup>2) (least_squares_quadratic X Y)"

section \<open>Properties of the analytic pricer\<close>

subsection \<open>The error function is odd\<close>

lemma erf_term_minus: "erf_term (- x) n = - erf_term x n"
  by (simp add: erf_term_def)

lemma erf_term_bound: "norm (erf_term x n) \<le> \<bar>x\<bar> * ((x\<^sup>2) ^ n / fact n)"
proof -
  have "norm (erf_term x n) = \<bar>x\<bar> ^ (2 * n + 1) / (fact n * real (2 * n + 1))"
    by (simp add: erf_term_def abs_mult power_abs)
  also have "\<dots> \<le> \<bar>x\<bar> ^ (2 * n + 1) / (fact n * 1)"
    by (intro divide_left_mono mult_left_mono) (simp_all)
  also have "\<dots> = \<bar>x\<bar> * ((x\<^sup>2) ^ n / fact n)"
    by (simp add: power_mult [symmetric] power_abs [symmetric] power_even_abs)
  finally show ?thesis .
qed

lemma summable_erf_term: "summable (erf_term x)"
proof (rule summable_comparison_test')
  show "summable (\<lambda>n. \<bar>x\<bar> * ((x\<^sup>2) ^ n / fact n))"
    using summable_exp [of "x\<^sup>2"]
    by (intro summable_mult) (simp add: divide_inverse mult.commute)
  show "norm (erf_term x n) \<le> \<bar>x\<bar> * ((x\<^sup>2) ^ n / fact n)" for n
    by (rule erf_term_bound)
qed

lemma erf_minus: "erf (- x) = - erf x"
  using suminf_minus [OF summable_erf_term [of x]]
  by (simp add: erf_def erf_term_minus)

lemma erfc_reflect: "erfc x + erfc (- x) = 2"
  by (simp add: erfc_def erf_minus)

lemma normalCDF_reflect: "normalCDF x + normalCDF (- x) = 1"
  using erfc_reflect [of "x * M_SQRT1_2"] by (simp add: normalCDF_def add.commute)

lemma parity_raw: "callPrice bs - putPrice bs = bs_S bs - bs_K bs * exp (- bs_r bs * bs_T bs)"
proof -
  have "callPrice bs - putPrice bs =
        bs_S bs * (normalCDF (d1 bs) + normalCDF (- d1 bs))
        - bs_K bs * exp (- bs_r bs * bs_T bs) * (normalCDF (d2 bs) + normalCDF (- d2 bs))"
    by (simp add: callPrice_def putPrice_def algebra_simps)
  then show ?thesis by (simp add: normalCDF_reflect)
qed

subsection \<open>The Newton-Raphson loop, iteration by iteration\<close>

lemma iv_sigma_shift:
  "iv_sigma step s0 (Suc i) = (case step s0 of Iterate s' \<Rightarrow> iv_sigma step s' i | _ \<Rightarrow> None)"
proof (induction i)
  case 0
  show ?case by (simp split: iv_step_result.splits)
next
  case (Suc i)
  show ?case
    by (subst iv_sigma.simps(2), subst Suc.IH) (simp split: iv_step_result.splits)
qed

lemma iv_loop_returns:
  "iv_loop step n s0 = Inr v \<longleftrightarrow> (\<exists>i<n. \<exists>s. iv_sigma step s0 i = Some s \<and> step s = Converged v)"
proof (induction n arbitrary: s0)
  case 0
  show ?case by simp
next
  case (Suc n)
  show ?case
    unfolding Ex_less_Suc2 iv_sigma_shift
    by (cases "step s0") (simp_all add: Suc.IH)
qed

lemma iv_loop_throws:
  "iv_loop step n s0 = Inl e \<longleftrightarrow>
     (\<exists>i<n. \<exists>s. iv_sigma step s0 i = Some s \<and> step s = Failed e)
     \<or> (e = ConvergenceFailure \<and> iv_sigma step s0 n \<noteq> None)"
proof (induction n arbitrary: s0)
  case 0
  show ?case by auto
next
  case (Suc n)
  show ?case
    unfolding Ex_less_Suc2 iv_sigma_shift
    by (cases "step s0") (simp_all add: Suc.IH)
qed

lemma iv_sigma_prefix:
  "iv_sigma step s0 n \<noteq> None \<longleftrightarrow> (\<forall>i<n. \<exists>s s'. iv_sigma step s0 i = Some s \<and> step s = Iterate s')"
proof (induction n)
  case 0
  show ?case by simp
next
  case (Suc n)
  have "iv_sigma step s0 (Suc n) \<noteq> None \<longleftrightarrow>
        iv_sigma step s0 n \<noteq> None \<and> (\<exists>s s'. iv_sigma step s0 n = Some s \<and> step s = Iterate s')"
    by (auto split: option.splits iv_step_result.splits)
  then show ?case
    unfolding All_less_Suc Suc.IH by blast
qed

lemma clamp_range: "1 / 1000 \<le> max (1 / 1000) (min x 5) \<and> max (1 / 1000) (min x 5) \<le> (5::real)"
  by (auto simp: max_def min_def)

lemma iv_step_Iterate_range:
  assumes "iv_step mp S K r T ty tol s = Iterate s'"
  shows "0.001 \<le> s' \<and> s' \<le> 5"
proof -
  from assms obtain x where "s' = max (1 / 1000) (min x 5)"
    by (auto simp: iv_step_def Let_def split: sum.splits if_splits)
  with clamp_range [of x] show ?thesis by simp
qed

lemma iv_sigma_range:
  assumes "iv_sigma (iv_step mp S K r T ty tol) 0.2 i = Some s"
  shows "0.001 \<le> s \<and> s \<le> 5"
proof (cases i)
  case 0
  with assms show ?thesis by simp
next
  case (Suc j)
  with assms obtain s1 where "iv_step mp S K r T ty tol s1 = Iterate s"
    by (auto split: option.splits iv_step_result.splits)
  then show ?thesis by (rule iv_step_Iterate_range)
qed

lemma iv_step_cases:
  assumes "0 < s"
  shows "iv_step mp S K r T ty tol s =
     (if \<not> (0 < S \<and> 0 < K \<and> 0 < T) then Failed InvalidParameter
      else if \<bar>price (bs_at S K r T s) ty - mp\<bar> < tol then Converged s
      else if vega (bs_at S K r T s) < 0.0000000001 then Failed VegaTooSmall
      else Iterate (max 0.001 (min (s - (price (bs_at S K r T s) ty - mp) / vega (bs_at S K r T s)) 5)))"
  using assms by (auto simp add: iv_step_def BlackScholes_new_def bs_at_def Let_def)

lemma iv_sigma_pos:
  "iv_sigma (iv_step mp S K r T ty tol) 0.2 i = Some s \<Longrightarrow> 0 < s"
  using iv_sigma_range [of mp S K r T ty tol i s] by simp

subsection \<open>Bounds used to evaluate the loop on concrete inputs\<close>

lemma sqrt_2pi_bounds: "1 < sqrt (2 * pi) \<and> sqrt (2 * pi) \<le> 3"
proof
  show "1 < sqrt (2 * pi)"
    using pi_ge_two by (intro real_less_rsqrt) simp
  have "2 * pi \<le> 3\<^sup>2" using pi_less_4 by simp
  then show "sqrt (2 * pi) \<le> 3"
    by (intro real_le_lsqrt) simp_all
qed

lemma normalPDF_bounds: "0 < normalPDF x \<and> normalPDF x < 1"
proof -
  have a: "1 < sqrt (2 * pi)" using sqrt_2pi_bounds by simp
  have b: "exp (- 0.5 * x * x) \<le> 1" by simp
  have "exp (- 0.5 * x * x) < sqrt (2 * pi)" using a b by linarith
  moreover have "0 < exp (- 0.5 * x * x) / sqrt (2 * pi)"
    using a by (intro divide_pos_pos) simp_all
  ultimately show ?thesis
    unfolding normalPDF_def M_PI_def using a by simp
qed

lemma vega_at_the_money: "10 \<le> vega (bs_at 100 100 0 1 0.2)"
proof -
  have d: "d1 (bs_at 100 100 0 1 0.2) = 1 / 10"
    by (simp add: d1_def bs_at_def)
  have e: "199 / 200 \<le> exp (- (1 / 200 :: real))"
    using exp_ge_add_one_self [of "- (1 / 200 :: real)"] by simp
  have s: "sqrt (2 * pi) \<le> 3" "0 < sqrt (2 * pi)"
    using sqrt_2pi_bounds by simp_all
  have v: "vega (bs_at 100 100 0 1 0.2) = 100 * (exp (- (1 / 200)) / sqrt (2 * pi))"
    unfolding vega_def Let_def d by (simp add: normalPDF_def M_PI_def bs_at_def)
  have "sqrt (2 * pi) * (1 / 10) \<le> exp (- (1 / 200 :: real))"
    using e s by linarith
  then have "1 / 10 \<le> exp (- (1 / 200 :: real)) / sqrt (2 * pi)"
    using s(2) by (simp add: le_divide_eq mult.commute)
  then show ?thesis unfolding v by linarith
qed

lemma iv_sigma_one_example:
  "iv_sigma (iv_step 10 100 100 0 1 CALL 0) 0.2 1 =
     Some (max 0.001 (min (0.2 - (price (bs_at 100 100 0 1 0.2) CALL - 10) / vega (bs_at 100 100 0 1 0.2)) 5.0))"
  using vega_at_the_money by (simp add: iv_step_cases)

section \<open>Claims about the analytic pricer\<close>

text \<open>
  Claim C3. \<open>impliedVolatility\<close> returns a volatility exactly when some iteration
  within the budget is reached, builds its pricer and finds \<open>\<bar>price - marketPrice\<bar> < tolerance\<close>;
  the value returned is the volatility of that iteration. It throws "Vega too small" exactly
  when some iteration within the budget misses the tolerance and finds \<open>vega < 1e-10\<close>. It
  throws "did not converge" exactly when every one of the \<open>maxIterations\<close> iterations runs,
  misses the tolerance and has a vega of at least \<open>1e-10\<close>; the result is then an error, which
  carries no volatility. (For \<open>S\<close>, \<open>K\<close> or \<open>T\<close> not positive the first iteration throws in
  the constructor, so none of the three happens unless \<open>maxIterations \<le> 0\<close>.)
\<close>

theorem impliedVolatility_outcomes:
  "(impliedVolatility mp S K r T ty tol maxIt = Inr v \<longleftrightarrow>
      (\<exists>i. int i < maxIt \<and> iv_sigma (iv_step mp S K r T ty tol) 0.2 i = Some v
           \<and> 0 < S \<and> 0 < K \<and> 0 < T
           \<and> \<bar>price (bs_at S K r T v) ty - mp\<bar> < tol))
   \<and> (impliedVolatility mp S K r T ty tol maxIt = Inl VegaTooSmall \<longleftrightarrow>
      (\<exists>i s. int i < maxIt \<and> iv_sigma (iv_step mp S K r T ty tol) 0.2 i = Some s
           \<and> 0 < S \<and> 0 < K \<and> 0 < T
           \<and> \<not> \<bar>price (bs_at S K r T s) ty - mp\<bar> < tol
           \<and> vega (bs_at S K r T s) < 0.0000000001))
   \<and> (impliedVolatility mp S K r T ty tol maxIt = Inl ConvergenceFailure \<longleftrightarrow>
      (\<forall>i. int i < maxIt \<longrightarrow>
         (\<exists>s. iv_sigma (iv_step mp S K r T ty tol) 0.2 i = Some s
           \<and> 0 < S \<and> 0 < K \<and> 0 < T
           \<and> \<not> \<bar>price (bs_at S K r T s) ty - mp\<bar> < tol
           \<and> \<not> vega (bs_at S K r T s) < 0.0000000001)))"
proof (intro conjI)
  let ?step = "iv_step mp S K r T ty tol"
  let ?sig = "iv_sigma ?step 0.2"
  have lt: "i < nat maxIt \<longleftrightarrow> int i < maxIt" for i by linarith
  have conv: "?step s = Converged v \<longleftrightarrow>
        s = v \<and> 0 < S \<and> 0 < K \<and> 0 < T \<and> \<bar>price (bs_at S K r T v) ty - mp\<bar> < tol"
    if "?sig i = Some s" for i s
    using iv_step_cases [OF iv_sigma_pos [OF that], of mp S K r T ty tol] by auto
  have small: "?step s = Failed VegaTooSmall \<longleftrightarrow>
        0 < S \<and> 0 < K \<and> 0 < T \<and> \<not> \<bar>price (bs_at S K r T s) ty - mp\<bar> < tol
        \<and> vega (bs_at S K r T s) < 0.0000000001"
    if "?sig i = Some s" for i s
    using iv_step_cases [OF iv_sigma_pos [OF that], of mp S K r T ty tol] by auto
  have again: "(\<exists>s'. ?step s = Iterate s') \<longleftrightarrow>
        0 < S \<and> 0 < K \<and> 0 < T \<and> \<not> \<bar>price (bs_at S K r T s) ty - mp\<bar> < tol
        \<and> \<not> vega (bs_at S K r T s) < 0.0000000001"
    if "?sig i = Some s" for i s
    using iv_step_cases [OF iv_sigma_pos [OF that], of mp S K r T ty tol] by auto
  have nocf: "?step s \<noteq> Failed ConvergenceFailure" if "?sig i = Some s" for i s
    using iv_step_cases [OF iv_sigma_pos [OF that], of mp S K r T ty tol] by auto
  show "impliedVolatility mp S K r T ty tol maxIt = Inr v \<longleftrightarrow>
      (\<exists>i. int i < maxIt \<and> ?sig i = Some v \<and> 0 < S \<and> 0 < K \<and> 0 < T
           \<and> \<bar>price (bs_at S K r T v) ty - mp\<bar> < tol)"
    unfolding impliedVolatility_def iv_loop_returns lt
    using conv by blast
  show "impliedVolatility mp S K r T ty tol maxIt = Inl VegaTooSmall \<longleftrightarrow>
      (\<exists>i s. int i < maxIt \<and> ?sig i = Some s \<and> 0 < S \<and> 0 < K \<and> 0 < T
           \<and> \<not> \<bar>price (bs_at S K r T s) ty - mp\<bar> < tol
           \<and> vega (bs_at S K r T s) < 0.0000000001)"
    unfolding impliedVolatility_def iv_loop_throws lt
    using small by blast
  show "impliedVolatility mp S K r T ty tol maxIt = Inl ConvergenceFailure \<longleftrightarrow>
      (\<forall>i. int i < maxIt \<longrightarrow>
         (\<exists>s. ?sig i = Some s \<and> 0 < S \<and> 0 < K \<and> 0 < T
           \<and> \<not> \<bar>price (bs_at S K r T s) ty - mp\<bar> < tol
           \<and> \<not> vega (bs_at S K r T s) < 0.0000000001))"
    unfolding impliedVolatility_def iv_loop_throws iv_sigma_prefix lt
    using again nocf by blast
qed

text \<open>
  The three outcomes on concrete calls: the market price of the initial guess converges at
  once; a spot of \<open>1e-11\<close> with tolerance 0 has a vega below \<open>1e-10\<close>; an at-the-money call
  with tolerance 0 and a budget of one iteration exhausts it.
\<close>

theorem impliedVolatility_outcomes_witness:
  "impliedVolatility (price (bs_at 100 100 0.05 1 0.2) CALL) 100 100 0.05 1 CALL 0.000001 100 = Inr 0.2
   \<and> impliedVolatility 1 0.00000000001 1 0.05 1 CALL 0 100 = Inl VegaTooSmall
   \<and> impliedVolatility 10 100 100 0 1 CALL 0 1 = Inl ConvergenceFailure"
proof (intro conjI)
  have "\<exists>i. int i < 100 \<and>
      iv_sigma (iv_step (price (bs_at 100 100 0.05 1 0.2) CALL) 100 100 0.05 1 CALL 0.000001) 0.2 i = Some 0.2
      \<and> (0::real) < 100 \<and> (0::real) < 100 \<and> (0::real) < 1
      \<and> \<bar>price (bs_at 100 100 0.05 1 0.2) CALL - price (bs_at 100 100 0.05 1 0.2) CALL\<bar> < (0.000001::real)"
    by (rule exI [of _ 0]) simp
  then show "impliedVolatility (price (bs_at 100 100 0.05 1 0.2) CALL) 100 100 0.05 1 CALL 0.000001 100 = Inr 0.2"
    using impliedVolatility_outcomes
      [of "price (bs_at 100 100 0.05 1 0.2) CALL" 100 100 "0.05" 1 CALL "0.000001" 100 "0.2"]
    by blast
next
  have "vega (bs_at 0.00000000001 1 0.05 1 0.2) < 0.0000000001"
  proof -
    have "vega (bs_at 0.00000000001 1 0.05 1 0.2)
          = 0.00000000001 * normalPDF (d1 (bs_at 0.00000000001 1 0.05 1 0.2))"
      by (simp add: vega_def bs_at_def)
    also have "\<dots> < 0.00000000001 * 1"
      using normalPDF_bounds [of "d1 (bs_at 0.00000000001 1 0.05 1 0.2)"]
      by (intro mult_strict_left_mono) simp_all
    finally show ?thesis by simp
  qed
  then have "\<exists>i s. int i < 100 \<and>
      iv_sigma (iv_step 1 0.00000000001 1 0.05 1 CALL 0) 0.2 i = Some s
      \<and> (0::real) < 0.00000000001 \<and> (0::real) < 1 \<and> (0::real) < 1
      \<and> \<not> \<bar>price (bs_at 0.00000000001 1 0.05 1 s) CALL - 1\<bar> < 0
      \<and> vega (bs_at 0.00000000001 1 0.05 1 s) < 0.0000000001"
    by (intro exI [of _ 0] exI [of _ "0.2"]) simp
  then show "impliedVolatility 1 0.00000000001 1 0.05 1 CALL 0 100 = Inl VegaTooSmall"
    using impliedVolatility_outcomes [of 1 "0.00000000001" 1 "0.05" 1 CALL 0 100]
    by blast
next
  have "\<exists>s. iv_sigma (iv_step 10 100 100 0 1 CALL 0) 0.2 i = Some s
      \<and> (0::real) < 100 \<and> (0::real) < 100 \<and> (0::real) < 1
      \<and> \<not> \<bar>price (bs_at 100 100 0 1 s) CALL - 10\<bar> < 0
      \<and> \<not> vega (bs_at 100 100 0 1 s) < 0.0000000001" if "int i < 1" for i
  proof -
    from that have "i = 0" by simp
    then show ?thesis using vega_at_the_money by (intro exI [of _ "0.2"]) simp
  qed
  then show "impliedVolatility 10 100 100 0 1 CALL 0 1 = Inl ConvergenceFailure"
    using impliedVolatility_outcomes [of 10 100 100 0 1 CALL 0 1]
    by blast
qed

text \<open>
  Claim C8. The search starts at 0.2; every volatility with which an iteration starts lies
  in \<open>[0.001, 5]\<close>; the volatility of iteration \<open>i + 1\<close> is the Newton update of the one of
  iteration \<open>i\<close>, clamped into \<open>[0.001, 5]\<close>; and a returned volatility lies in the same
  interval. This holds for all arguments and every iteration budget.
\<close>

theorem iv_sigma_clamped:
  "iv_sigma (iv_step mp S K r T ty tol) 0.2 0 = Some 0.2
   \<and> (iv_sigma (iv_step mp S K r T ty tol) 0.2 i = Some s \<longrightarrow> 0.001 \<le> s \<and> s \<le> 5)
   \<and> (iv_sigma (iv_step mp S K r T ty tol) 0.2 (Suc i) = Some s' \<longrightarrow>
        (\<exists>s. iv_sigma (iv_step mp S K r T ty tol) 0.2 i = Some s
           \<and> s' = max 0.001 (min (s - (price (bs_at S K r T s) ty - mp) / vega (bs_at S K r T s)) 5.0)))
   \<and> (impliedVolatility mp S K r T ty tol maxIt = Inr v \<longrightarrow> 0.001 \<le> v \<and> v \<le> 5)"
proof (intro conjI impI)
  let ?step = "iv_step mp S K r T ty tol"
  show "iv_sigma ?step 0.2 0 = Some 0.2" by simp
  show "0.001 \<le> s" "s \<le> 5" if "iv_sigma ?step 0.2 i = Some s"
    using iv_sigma_range [OF that] by simp_all
  show "\<exists>s. iv_sigma ?step 0.2 i = Some s
           \<and> s' = max 0.001 (min (s - (price (bs_at S K r T s) ty - mp) / vega (bs_at S K r T s)) 5.0)"
    if nxt: "iv_sigma ?step 0.2 (Suc i) = Some s'"
  proof -
    from nxt obtain s where s: "iv_sigma ?step 0.2 i = Some s" "?step s = Iterate s'"
      by (auto split: option.splits iv_step_result.splits)
    from s(2) iv_step_cases [OF iv_sigma_pos [OF s(1)], of mp S K r T ty tol]
    have "s' = max 0.001 (min (s - (price (bs_at S K r T s) ty - mp) / vega (bs_at S K r T s)) 5.0)"
      by (simp split: if_splits)
    with s(1) show ?thesis by blast
  qed
  assume "impliedVolatility mp S K r T ty tol maxIt = Inr v"
  then obtain j s where j: "iv_sigma ?step 0.2 j = Some s" "?step s = Converged v"
    unfolding impliedVolatility_def iv_loop_returns by blast
  from j(2) have "v = s"
    by (auto simp: iv_step_def Let_def split: sum.splits if_splits)
  with iv_sigma_range [OF j(1)] show "0.001 \<le> v" "v \<le> 5" by simp_all
qed

theorem iv_sigma_clamped_witness:
  "iv_sigma (iv_step 10 100 100 0 1 CALL 0) 0.2 1 =
     Some (max 0.001 (min (0.2 - (price (bs_at 100 100 0 1 0.2) CALL - 10) / vega (bs_at 100 100 0 1 0.2)) 5.0))
   \<and> 0.001 \<le> max 0.001 (min (0.2 - (price (bs_at 100 100 0 1 0.2) CALL - 10) / vega (bs_at 100 100 0 1 0.2)) 5.0)
   \<and> max 0.001 (min (0.2 - (price (bs_at 100 100 0 1 0.2) CALL - 10) / vega (bs_at 100 100 0 1 0.2)) 5.0) \<le> 5
   \<and> impliedVolatility (price (bs_at 100 100 0.05 1 0.2) CALL) 100 100 0.05 1 CALL 0.000001 100 = Inr 0.2
   \<and> (0.001::real) \<le> 0.2 \<and> (0.2::real) \<le> 5"
proof -
  let ?s1 = "max 0.001 (min (0.2 - (price (bs_at 100 100 0 1 0.2) CALL - 10) / vega (bs_at 100 100 0 1 0.2)) 5.0)"
  have a: "iv_sigma (iv_step 10 100 100 0 1 CALL 0) 0.2 1 = Some ?s1"
    by (rule iv_sigma_one_example)
  have b: "impliedVolatility (price (bs_at 100 100 0.05 1 0.2) CALL) 100 100 0.05 1 CALL 0.000001 100 = Inr 0.2"
    by (simp add: impliedVolatility_def numeral_eq_Suc iv_step_cases)
  from a iv_sigma_clamped [of 10 100 100 0 1 CALL 0 1 ?s1]
  have c: "0.001 \<le> ?s1 \<and> ?s1 \<le> 5" by blast
  from b iv_sigma_clamped [of "price (bs_at 100 100 0.05 1 0.2) CALL" 100 100 "0.05" 1 CALL "0.000001" 0 "0.2" 0 100 "0.2"]
  have d: "(0.001::real) \<le> 0.2 \<and> (0.2::real) \<le> 5" by blast
  from a b c d show ?thesis by blast
qed

text \<open>
  Claim C10. For positive \<open>S\<close>, \<open>K\<close> and \<open>T\<close>, every volatility with which an iteration
  starts is positive, so the constructor call of that iteration succeeds, and
  \<open>impliedVolatility\<close> never throws the constructor's invalid-argument error.
\<close>

theorem iv_pricer_always_valid:
  assumes "0 < S" "0 < K" "0 < T"
  shows "(iv_sigma (iv_step mp S K r T ty tol) 0.2 i = Some s \<longrightarrow>
            0 < s \<and> BlackScholes_new S K r T s = Inr (bs_at S K r T s))
         \<and> impliedVolatility mp S K r T ty tol maxIt \<noteq> Inl InvalidParameter"
proof (intro conjI impI)
  let ?step = "iv_step mp S K r T ty tol"
  assume s: "iv_sigma ?step 0.2 i = Some s"
  show "0 < s" by (rule iv_sigma_pos [OF s])
  then show "BlackScholes_new S K r T s = Inr (bs_at S K r T s)"
    using assms by (simp add: BlackScholes_new_def bs_at_def)
next
  let ?step = "iv_step mp S K r T ty tol"
  have "?step s \<noteq> Failed InvalidParameter" if "iv_sigma ?step 0.2 j = Some s" for j s
    using iv_step_cases [OF iv_sigma_pos [OF that], of mp S K r T ty tol] assms by simp
  then show "impliedVolatility mp S K r T ty tol maxIt \<noteq> Inl InvalidParameter"
    unfolding impliedVolatility_def iv_loop_throws by blast
qed

theorem iv_pricer_always_valid_witness:
  "(0::real) < 100 \<and> (0::real) < 1
   \<and> BlackScholes_new 100 100 0 1
        (max 0.001 (min (0.2 - (price (bs_at 100 100 0 1 0.2) CALL - 10) / vega (bs_at 100 100 0 1 0.2)) 5.0))
      = Inr (bs_at 100 100 0 1
        (max 0.001 (min (0.2 - (price (bs_at 100 100 0 1 0.2) CALL - 10) / vega (bs_at 100 100 0 1 0.2)) 5.0)))
   \<and> impliedVolatility 10 100 100 0 1 CALL 0 1 \<noteq> Inl InvalidParameter"
proof -
  have p: "(0::real) < 100" "(0::real) < 1" by simp_all
  from iv_pricer_always_valid [OF p(1) p(1) p(2), of 10 0 CALL 0 1 _ 1] iv_sigma_one_example p
  show ?thesis by blast
qed

text \<open>
  Put-call parity in exact arithmetic: for a pricer the constructor accepts, whatever the
  rate, \<open>callPrice - putPrice = S - K e\<^sup>-\<^sup>r\<^sup>T\<close>. How far the two prices computed in doubles
  miss this identity is a matter of the rounding of each operation and of the C library's
  \<open>erfc\<close>, \<open>exp\<close> and \<open>log\<close>, which this development does not model; the identity gives
  no bound for the doubles.
\<close>

lemma put_call_parity_exact:
  assumes "BlackScholes_new S K r T sigma = Inr bs"
  shows "callPrice bs - putPrice bs = S - K * exp (- r * T)"
proof -
  from assms have "bs = bs_at S K r T sigma"
    by (auto simp: BlackScholes_new_def bs_at_def split: if_splits)
  then show ?thesis
    using parity_raw [of bs] by (simp add: bs_at_def)
qed

text \<open>
  Claim C7, as stated, fails: the constructor does not look at the rate. A pricer with the
  rate \<open>-0.01\<close> is constructed.
\<close>

theorem BlackScholes_new_accepts_negative_rate:
  "BlackScholes_new 100 100 (- 0.01) 1 0.2 = Inr (bs_at 100 100 (- 0.01) 1 0.2)"
  by (simp add: BlackScholes_new_def bs_at_def)

text \<open>
  Claim C7, amended. Construction throws the invalid-argument error exactly when the spot,
  the strike, the maturity or the volatility is not strictly positive; otherwise it succeeds
  and stores the five arguments, whatever the rate is. No other error is thrown.
\<close>

theorem BlackScholes_new_validates:
  "(BlackScholes_new S K r T sigma = Inl InvalidParameter \<longleftrightarrow> S \<le> 0 \<or> K \<le> 0 \<or> T \<le> 0 \<or> sigma \<le> 0)
   \<and> (BlackScholes_new S K r T sigma = Inr (bs_at S K r T sigma) \<longleftrightarrow> 0 < S \<and> 0 < K \<and> 0 < T \<and> 0 < sigma)
   \<and> (\<forall>e. BlackScholes_new S K r T sigma = Inl e \<longrightarrow> e = InvalidParameter)"
  by (auto simp: BlackScholes_new_def bs_at_def)

theorem BlackScholes_new_validates_witness:
  "BlackScholes_new 100 100 0.05 1 (- 0.2) = Inl InvalidParameter
   \<and> BlackScholes_new 0 100 0.05 1 0.2 = Inl InvalidParameter
   \<and> BlackScholes_new 100 100 0 1 0.2 = Inr (bs_at 100 100 0 1 0.2)"
  using BlackScholes_new_validates [of 100 100 "0.05" 1 "- 0.2"]
    BlackScholes_new_validates [of 0 100 "0.05" 1 "0.2"]
    BlackScholes_new_validates [of 100 100 0 1 "0.2"]
  by simp

section \<open>Properties of the Monte Carlo engine\<close>

subsection \<open>Rounding to the nearest double\<close>

lemma rhe_close: "\<bar>of_int (round_half_even x) - x\<bar> \<le> 1 / 2"
  unfolding round_half_even_def Let_def by (auto simp: abs_le_iff)

lemma rhe_int [simp]: "round_half_even (of_int k) = k"
  by (simp add: round_half_even_def)

lemma rhe_near:
  assumes "\<bar>x - of_int m\<bar> < 1 / 2"
  shows "round_half_even x = m"
proof -
  have "\<bar>of_int (round_half_even x) - (of_int m :: real)\<bar> < 1"
    using rhe_close [of x] assms by linarith
  then have "\<bar>round_half_even x - m\<bar> < 1"
    by (metis of_int_diff of_int_abs of_int_less_1_iff)
  then show ?thesis by linarith
qed

lemma rhe_mono:
  assumes "x \<le> y"
  shows "round_half_even x \<le> round_half_even y"
proof (rule ccontr)
  assume "\<not> ?thesis"
  then have gt: "round_half_even y + 1 \<le> round_half_even x" by simp
  then have "of_int (round_half_even y) + (1::real) \<le> of_int (round_half_even x)"
    by (metis of_int_1 of_int_add of_int_le_iff)
  with rhe_close [of x] rhe_close [of y] assms
  have "x = y" by linarith
  with gt show False by simp
qed


lemma binade_bounds:
  assumes "x \<noteq> 0"
  shows "2 powr of_int \<lfloor>log 2 \<bar>x\<bar>\<rfloor> \<le> \<bar>x\<bar>"
    and "\<bar>x\<bar> < 2 powr (of_int \<lfloor>log 2 \<bar>x\<bar>\<rfloor> + 1)"
proof -
  have pos: "0 < \<bar>x\<bar>" using assms by simp
  have x: "2 powr log 2 \<bar>x\<bar> = \<bar>x\<bar>" using pos by simp
  have "2 powr of_int \<lfloor>log 2 \<bar>x\<bar>\<rfloor> \<le> 2 powr log 2 \<bar>x\<bar>"
    by (intro powr_mono) simp_all
  then show "2 powr of_int \<lfloor>log 2 \<bar>x\<bar>\<rfloor> \<le> \<bar>x\<bar>" using x by simp
  have "2 powr log 2 \<bar>x\<bar> < 2 powr (of_int \<lfloor>log 2 \<bar>x\<bar>\<rfloor> + 1)"
    by (intro powr_less_mono) simp_all
  then show "\<bar>x\<bar> < 2 powr (of_int \<lfloor>log 2 \<bar>x\<bar>\<rfloor> + 1)" using x by simp
qed

lemma binade_unique:
  assumes "2 powr of_int k \<le> \<bar>x\<bar>" "\<bar>x\<bar> < 2 powr (of_int k + 1)"
  shows "\<lfloor>log 2 \<bar>x\<bar>\<rfloor> = k"
proof -
  have pos: "0 < \<bar>x\<bar>" using assms(1) by (smt (verit) powr_gt_zero)
  have "log 2 (2 powr of_int k) \<le> log 2 \<bar>x\<bar>"
    using assms(1) pos by (subst log_le_cancel_iff) simp_all
  moreover have "log 2 \<bar>x\<bar> < log 2 (2 powr (of_int k + 1))"
    using assms(2) pos by (subst log_less_cancel_iff) simp_all
  ultimately show ?thesis
    by (intro floor_unique) simp_all
qed

lemma two_powr_52: "(2::real) powr 52 = of_int (2 ^ 52)" "(2::real) powr 53 = of_int (2 ^ 53)"
  by simp_all

lemma scaled_bounds:
  assumes "x \<noteq> 0"
  shows "2 powr 52 \<le> \<bar>x\<bar> / 2 powr of_int (\<lfloor>log 2 \<bar>x\<bar>\<rfloor> - 52)"
    and "\<bar>x\<bar> / 2 powr of_int (\<lfloor>log 2 \<bar>x\<bar>\<rfloor> - 52) < 2 powr 53"
proof -
  let ?B = "\<lfloor>log 2 \<bar>x\<bar>\<rfloor>"
  have u: "0 < (2::real) powr of_int (?B - 52)" by simp
  have "(52::real) + of_int (?B - 52) = of_int ?B" "(53::real) + of_int (?B - 52) = of_int ?B + 1"
    by simp_all
  then have a: "2 powr 52 * 2 powr of_int (?B - 52) = (2::real) powr of_int ?B"
    and b: "2 powr 53 * 2 powr of_int (?B - 52) = (2::real) powr (of_int ?B + 1)"
    by (simp_all only: powr_add [symmetric])
  show "2 powr 52 \<le> \<bar>x\<bar> / 2 powr of_int (?B - 52)"
    using binade_bounds(1) [OF assms] a u by (simp add: le_divide_eq)
  show "\<bar>x\<bar> / 2 powr of_int (?B - 52) < 2 powr 53"
    using binade_bounds(2) [OF assms] b u by (simp add: divide_less_eq)
qed


lemma double_round_nonzero:
  "x \<noteq> 0 \<Longrightarrow>
     double_round x = of_int (round_half_even (x / 2 powr of_int (\<lfloor>log 2 \<bar>x\<bar>\<rfloor> - 52)))
                        * 2 powr of_int (\<lfloor>log 2 \<bar>x\<bar>\<rfloor> - 52)"
  by (simp add: double_round_def Let_def)

lemma double_round_zero [simp]: "double_round 0 = 0"
  by (simp add: double_round_def)

lemma ulp_times:
  "of_int (2 ^ 52) * 2 powr of_int (k - 52) = (2::real) powr of_int k"
  "of_int (2 ^ 53) * 2 powr of_int (k - 52) = (2::real) powr (of_int k + 1)"
proof -
  have "(52::real) + of_int (k - 52) = of_int k" "(53::real) + of_int (k - 52) = of_int k + 1"
    by simp_all
  then have "2 powr 52 * 2 powr of_int (k - 52) = (2::real) powr of_int k"
    and "2 powr 53 * 2 powr of_int (k - 52) = (2::real) powr (of_int k + 1)"
    by (simp_all only: powr_add [symmetric])
  then show "of_int (2 ^ 52) * 2 powr of_int (k - 52) = (2::real) powr of_int k"
    and "of_int (2 ^ 53) * 2 powr of_int (k - 52) = (2::real) powr (of_int k + 1)"
    by (simp_all only: two_powr_52)
qed

lemma rhe_scaled_pos:
  assumes "0 < x"
  shows "2 ^ 52 \<le> round_half_even (x / 2 powr of_int (\<lfloor>log 2 \<bar>x\<bar>\<rfloor> - 52))"
    and "round_half_even (x / 2 powr of_int (\<lfloor>log 2 \<bar>x\<bar>\<rfloor> - 52)) \<le> 2 ^ 53"
proof -
  let ?q = "x / 2 powr of_int (\<lfloor>log 2 \<bar>x\<bar>\<rfloor> - 52)"
  have x: "x \<noteq> 0" "\<bar>x\<bar> = x" using assms by simp_all
  have b: "of_int (2 ^ 52) \<le> ?q" "?q \<le> of_int (2 ^ 53)"
    using scaled_bounds [OF x(1)] unfolding x(2) two_powr_52 by simp_all
  show "2 ^ 52 \<le> round_half_even ?q"
    using rhe_mono [OF b(1)] by (simp only: rhe_int)
  show "round_half_even ?q \<le> 2 ^ 53"
    using rhe_mono [OF b(2)] by (simp only: rhe_int)
qed

lemma rhe_scaled_neg:
  assumes "x < 0"
  shows "- (2 ^ 53) \<le> round_half_even (x / 2 powr of_int (\<lfloor>log 2 \<bar>x\<bar>\<rfloor> - 52))"
    and "round_half_even (x / 2 powr of_int (\<lfloor>log 2 \<bar>x\<bar>\<rfloor> - 52)) \<le> - (2 ^ 52)"
proof -
  let ?u = "2 powr of_int (\<lfloor>log 2 \<bar>x\<bar>\<rfloor> - 52)"
  let ?q = "x / ?u"
  have x: "x \<noteq> 0" "\<bar>x\<bar> = - x" using assms by simp_all
  have "of_int (2 ^ 52) \<le> - x / ?u" "- x / ?u \<le> of_int (2 ^ 53)"
    using scaled_bounds [OF x(1)] unfolding x(2) two_powr_52 by simp_all
  then have b: "of_int (- (2 ^ 53)) \<le> ?q" "?q \<le> of_int (- (2 ^ 52))"
    by simp_all
  show "- (2 ^ 53) \<le> round_half_even ?q"
    using rhe_mono [OF b(1)] by (simp only: rhe_int)
  show "round_half_even ?q \<le> - (2 ^ 52)"
    using rhe_mono [OF b(2)] by (simp only: rhe_int)
qed

lemma double_round_pos_bounds:
  assumes "0 < x"
  shows "2 powr of_int \<lfloor>log 2 \<bar>x\<bar>\<rfloor> \<le> double_round x"
    and "double_round x \<le> 2 powr (of_int \<lfloor>log 2 \<bar>x\<bar>\<rfloor> + 1)"
proof -
  let ?k = "\<lfloor>log 2 \<bar>x\<bar>\<rfloor>"
  let ?u = "(2::real) powr of_int (?k - 52)"
  let ?m = "round_half_even (x / ?u)"
  have x: "x \<noteq> 0" using assms by simp
  have u: "0 < ?u" by simp
  have "(of_int (2 ^ 52) :: real) \<le> of_int ?m" "(of_int ?m :: real) \<le> of_int (2 ^ 53)"
    using rhe_scaled_pos [OF assms] by (simp_all only: of_int_le_iff)
  then have "of_int (2 ^ 52) * ?u \<le> of_int ?m * ?u" "of_int ?m * ?u \<le> of_int (2 ^ 53) * ?u"
    using u by (simp_all only: mult_le_cancel_right_pos)
  then show "2 powr of_int ?k \<le> double_round x" "double_round x \<le> 2 powr (of_int ?k + 1)"
    unfolding ulp_times double_round_nonzero [OF x] by simp_all
qed

lemma double_round_neg_bounds:
  assumes "x < 0"
  shows "- (2 powr (of_int \<lfloor>log 2 \<bar>x\<bar>\<rfloor> + 1)) \<le> double_round x"
    and "double_round x \<le> - (2 powr of_int \<lfloor>log 2 \<bar>x\<bar>\<rfloor>)"
proof -
  let ?k = "\<lfloor>log 2 \<bar>x\<bar>\<rfloor>"
  let ?u = "(2::real) powr of_int (?k - 52)"
  let ?m = "round_half_even (x / ?u)"
  have x: "x \<noteq> 0" using assms by simp
  have u: "0 < ?u" by simp
  have "(of_int (- (2 ^ 53)) :: real) \<le> of_int ?m" "(of_int ?m :: real) \<le> of_int (- (2 ^ 52))"
    using rhe_scaled_neg [OF assms] by (simp_all only: of_int_le_iff)
  then have "of_int (- (2 ^ 53)) * ?u \<le> of_int ?m * ?u" "of_int ?m * ?u \<le> of_int (- (2 ^ 52)) * ?u"
    using u by (simp_all only: mult_le_cancel_right_pos)
  then have "- (of_int (2 ^ 53) * ?u) \<le> of_int ?m * ?u" "of_int ?m * ?u \<le> - (of_int (2 ^ 52) * ?u)"
    by (simp_all only: of_int_minus mult_minus_left)
  then show "- (2 powr (of_int ?k + 1)) \<le> double_round x" "double_round x \<le> - (2 powr of_int ?k)"
    unfolding ulp_times double_round_nonzero [OF x] by simp_all
qed


lemma binade_mono:
  assumes "0 < x" "x \<le> y"
  shows "\<lfloor>log 2 x\<rfloor> \<le> \<lfloor>log 2 y\<rfloor>"
  using assms by (intro floor_mono) (simp add: log_le_cancel_iff)

lemma double_round_mono_pos:
  assumes "0 < x" "x \<le> y"
  shows "double_round x \<le> double_round y"
proof -
  have y: "0 < y" using assms by simp
  have ax: "\<bar>x\<bar> = x" "\<bar>y\<bar> = y" using assms by simp_all
  let ?kx = "\<lfloor>log 2 \<bar>x\<bar>\<rfloor>" and ?ky = "\<lfloor>log 2 \<bar>y\<bar>\<rfloor>"
  have le: "?kx \<le> ?ky" unfolding ax by (rule binade_mono [OF assms])
  show ?thesis
  proof (cases "?kx = ?ky")
    case True
    let ?u = "(2::real) powr of_int (?kx - 52)"
    have u: "0 < ?u" by simp
    have "x / ?u \<le> y / ?u" using assms(2) u by (simp add: divide_right_mono)
    then have "round_half_even (x / ?u) \<le> round_half_even (y / ?u)" by (rule rhe_mono)
    then have "(of_int (round_half_even (x / ?u)) :: real) \<le> of_int (round_half_even (y / ?u))"
      by (simp only: of_int_le_iff)
    then have "of_int (round_half_even (x / ?u)) * ?u \<le> of_int (round_half_even (y / ?u)) * ?u"
      using u by (simp only: mult_le_cancel_right_pos)
    moreover have "double_round x = of_int (round_half_even (x / ?u)) * ?u"
      using assms(1) by (intro double_round_nonzero) simp
    moreover have "double_round y = of_int (round_half_even (y / ?u)) * ?u"
      unfolding True using y by (intro double_round_nonzero) simp
    ultimately show ?thesis by simp
  next
    case False
    with le have "?kx + 1 \<le> ?ky" by simp
    then have "(of_int ?kx :: real) + 1 \<le> of_int ?ky"
      by (metis of_int_1 of_int_add of_int_le_iff)
    then have "(2::real) powr (of_int ?kx + 1) \<le> 2 powr of_int ?ky"
      by (intro powr_mono) simp_all
    with double_round_pos_bounds(2) [OF assms(1)] double_round_pos_bounds(1) [OF y]
    show ?thesis by linarith
  qed
qed

lemma double_round_mono_neg:
  assumes "y < 0" "x \<le> y"
  shows "double_round x \<le> double_round y"
proof -
  have x: "x < 0" using assms by simp
  have ax: "\<bar>x\<bar> = - x" "\<bar>y\<bar> = - y" using assms by simp_all
  let ?kx = "\<lfloor>log 2 \<bar>x\<bar>\<rfloor>" and ?ky = "\<lfloor>log 2 \<bar>y\<bar>\<rfloor>"
  have le: "?ky \<le> ?kx" unfolding ax using assms by (intro binade_mono) simp_all
  show ?thesis
  proof (cases "?kx = ?ky")
    case True
    let ?u = "(2::real) powr of_int (?kx - 52)"
    have u: "0 < ?u" by simp
    have "x / ?u \<le> y / ?u" using assms(2) u by (simp add: divide_right_mono)
    then have "round_half_even (x / ?u) \<le> round_half_even (y / ?u)" by (rule rhe_mono)
    then have "(of_int (round_half_even (x / ?u)) :: real) \<le> of_int (round_half_even (y / ?u))"
      by (simp only: of_int_le_iff)
    then have "of_int (round_half_even (x / ?u)) * ?u \<le> of_int (round_half_even (y / ?u)) * ?u"
      using u by (simp only: mult_le_cancel_right_pos)
    moreover have "double_round x = of_int (round_half_even (x / ?u)) * ?u"
      using x by (intro double_round_nonzero) simp
    moreover have "double_round y = of_int (round_half_even (y / ?u)) * ?u"
      unfolding True using assms(1) by (intro double_round_nonzero) simp
    ultimately show ?thesis by simp
  next
    case False
    with le have "?ky + 1 \<le> ?kx" by simp
    then have "(of_int ?ky :: real) + 1 \<le> of_int ?kx"
      by (metis of_int_1 of_int_add of_int_le_iff)
    then have "(2::real) powr (of_int ?ky + 1) \<le> 2 powr of_int ?kx"
      by (intro powr_mono) simp_all
    with double_round_neg_bounds(2) [OF x] double_round_neg_bounds(1) [OF assms(1)]
    show ?thesis by linarith
  qed
qed

lemma double_round_pos: "0 < x \<Longrightarrow> 0 < double_round x"
  using double_round_pos_bounds(1) [of x] powr_gt_zero [of 2 "of_int \<lfloor>log 2 \<bar>x\<bar>\<rfloor>"]
  by linarith

lemma double_round_neg: "x < 0 \<Longrightarrow> double_round x < 0"
  using double_round_neg_bounds(2) [of x] powr_gt_zero [of 2 "of_int \<lfloor>log 2 \<bar>x\<bar>\<rfloor>"]
  by linarith

lemma double_round_mono:
  assumes "x \<le> y"
  shows "double_round x \<le> double_round y"
proof -
  consider "0 < x" | "y < 0" | "x \<le> 0" "0 \<le> y" by linarith
  then show ?thesis
  proof cases
    case 1
    then show ?thesis using assms by (rule double_round_mono_pos)
  next
    case 2
    then show ?thesis using assms by (rule double_round_mono_neg)
  next
    case 3
    have "double_round x \<le> 0"
      using 3(1) double_round_neg [of x] by (cases "x = 0") simp_all
    moreover have "0 \<le> double_round y"
      using 3(2) double_round_pos [of y] by (cases "y = 0") simp_all
    ultimately show ?thesis by simp
  qed
qed


lemma double_round_near:
  assumes "2 powr of_int k \<le> \<bar>x\<bar>" "\<bar>x\<bar> < 2 powr (of_int k + 1)"
    and "\<bar>x / 2 powr of_int (k - 52) - of_int m\<bar> < 1 / 2"
  shows "double_round x = of_int m * 2 powr of_int (k - 52)"
proof -
  have "0 < \<bar>x\<bar>" using assms(1) powr_gt_zero [of 2 "of_int k"] by linarith
  then have x: "x \<noteq> 0" by simp
  have k: "\<lfloor>log 2 \<bar>x\<bar>\<rfloor> = k" by (rule binade_unique [OF assms(1,2)])
  show ?thesis
    unfolding double_round_nonzero [OF x] k rhe_near [OF assms(3)] ..
qed

lemma double_round_exact:
  assumes "2 ^ 52 \<le> \<bar>m\<bar>" "\<bar>m\<bar> < 2 ^ 53"
  shows "double_round (of_int m * 2 powr of_int e) = of_int m * 2 powr of_int e"
proof -
  let ?u = "(2::real) powr of_int e"
  let ?x = "of_int m * ?u"
  have u: "0 < ?u" by simp
  have e: "e + 52 - 52 = e" by simp
  have ax: "\<bar>?x\<bar> = of_int \<bar>m\<bar> * ?u" by (simp add: abs_mult)
  have "(of_int (2 ^ 52) :: real) \<le> of_int \<bar>m\<bar>" "(of_int \<bar>m\<bar> :: real) < of_int (2 ^ 53)"
    using assms by (simp_all only: of_int_le_iff of_int_less_iff)
  then have c: "of_int (2 ^ 52) * ?u \<le> of_int \<bar>m\<bar> * ?u" "of_int \<bar>m\<bar> * ?u < of_int (2 ^ 53) * ?u"
    using u by (simp_all only: mult_le_cancel_right_pos mult_less_cancel_right_pos)
  note t = ulp_times [of "e + 52", unfolded e]
  have b: "2 powr of_int (e + 52) \<le> \<bar>?x\<bar>" "\<bar>?x\<bar> < 2 powr (of_int (e + 52) + 1)"
    unfolding ax t [symmetric] by (rule c)+
  have "\<bar>?x / 2 powr of_int (e + 52 - 52) - of_int m\<bar> < 1 / 2"
    unfolding e by simp
  from double_round_near [OF b this] show ?thesis unfolding e .
qed


lemma double_round_two_powr: "double_round (2 powr of_int k) = 2 powr of_int k"
proof -
  have "double_round (of_int (2 ^ 52) * 2 powr of_int (k - 52)) = of_int (2 ^ 52) * 2 powr of_int (k - 52)"
    by (rule double_round_exact) simp_all
  then show ?thesis unfolding ulp_times .
qed








subsection \<open>Loops as sums, lengths of the generated paths\<close>

lemma accumulate_sum_list: "accumulate xs init = init + sum_list xs"
  unfolding accumulate_def by (induction xs arbitrary: init) simp_all

lemma fold_sum_squared:
  "fold (\<lambda>p sumSquared. (let diff = p - m in sumSquared + diff * diff)) xs acc
     = acc + (\<Sum>x\<leftarrow>xs. (x - (m::real))\<^sup>2)"
  by (induction xs arbitrary: acc) (simp_all add: Let_def power2_eq_square add.assoc)

lemma sum_squared_sum_list: "sum_squared xs m = (\<Sum>x\<leftarrow>xs. (x - m)\<^sup>2)"
  unfolding sum_squared_def by (simp add: fold_sum_squared)

lemma path_loop_length: "length (fst (path_loop drift diffusion n prev g)) = n"
  by (induction n arbitrary: prev g) (simp_all add: Let_def case_prod_beta)

lemma generatePath_length:
  "length (fst (generatePath eng S0 r sigma T)) = Suc (nat (mc_numSteps eng))"
  by (simp add: generatePath_def Let_def case_prod_beta path_loop_length)

lemma generatePath_last:
  "fst (generatePath eng S0 r sigma T) ! nat (mc_numSteps eng) = last (fst (generatePath eng S0 r sigma T))"
proof -
  have "fst (generatePath eng S0 r sigma T) \<noteq> []"
    using generatePath_length [of eng S0 r sigma T] by auto
  then show ?thesis
    using generatePath_length [of eng S0 r sigma T] by (simp add: last_conv_nth)
qed

lemma generatePath_fields:
  "mc_numSteps (snd (generatePath eng S0 r sigma T)) = mc_numSteps eng
   \<and> mc_numSimulations (snd (generatePath eng S0 r sigma T)) = mc_numSimulations eng
   \<and> mc_seed (snd (generatePath eng S0 r sigma T)) = mc_seed eng"
  by (simp add: generatePath_def Let_def case_prod_beta)

lemma european_payoffs_length:
  "length (fst (european_payoffs option S0 r sigma T n eng)) = n"
  by (induction n arbitrary: eng) (simp_all add: Let_def case_prod_beta)

lemma european_payoffs_paths:
  "european_payoffs option S0 r sigma T n eng =
     (map (\<lambda>path. payoff option (last path)) (fst (generate_paths S0 r sigma T n eng)),
      snd (generate_paths S0 r sigma T n eng))"
proof (induction n arbitrary: eng)
  case 0
  show ?case by simp
next
  case (Suc n)
  obtain path eng1 where g: "generatePath eng S0 r sigma T = (path, eng1)"
    by (cases "generatePath eng S0 r sigma T")
  have l: "path ! nat (mc_numSteps eng) = last path"
    using generatePath_last [of eng S0 r sigma T] g by simp
  show ?case
    by (simp add: g l Suc.IH Let_def case_prod_beta)
qed

lemma generate_paths_length:
  "length (fst (generate_paths S0 r sigma T n eng)) = n"
  by (induction n arbitrary: eng) (simp_all add: Let_def case_prod_beta)


lemma priceEuropean_result:
  fixes eng :: MonteCarloEngine and option :: OptionData and S0 r sigma :: real
  assumes "0 < mc_numSimulations eng"
  defines "T \<equiv> opt_maturity option"
  defines "payoffs \<equiv> map (\<lambda>path. payoff option (last path))
                        (fst (generate_paths S0 r sigma T (nat (mc_numSimulations eng)) eng))"
  shows "fst (priceEuropean eng option S0 r sigma) =
           make_result (exp (- r * T) * sample_mean payoffs)
             (map_option (\<lambda>v. exp (- r * T) * sqrt (v / real (length payoffs))) (unbiased_variance payoffs))
             (mc_numSimulations eng)"
proof -
  let ?N = "mc_numSimulations eng"
  have len: "length payoffs = nat ?N"
    by (simp add: payoffs_def generate_paths_length)
  have rN: "real_of_int ?N = real (length payoffs)"
    using assms(1) len by simp
  have mean: "accumulate payoffs 0 / real (length payoffs) = sample_mean payoffs"
    by (simp add: accumulate_sum_list sample_mean_def)
  have var: "fdiv (sum_squared payoffs (sample_mean payoffs)) (real (length payoffs) - 1)
               = unbiased_variance payoffs"
  proof (cases "length payoffs = 1")
    case True
    then show ?thesis by (simp add: fdiv_def unbiased_variance_def)
  next
    case False
    with assms(1) len have "2 \<le> length payoffs" by simp
    then have "real (length payoffs) - 1 = real (length payoffs - 1)" "real (length payoffs) - 1 \<noteq> 0"
      "\<not> length payoffs < 2"
      by (simp_all add: of_nat_diff)
    then show ?thesis
      by (simp add: fdiv_def unbiased_variance_def sum_squared_sum_list)
  qed
  show ?thesis
    unfolding priceEuropean_def Let_def european_payoffs_paths case_prod_beta fst_conv snd_conv
    unfolding T_def [symmetric] payoffs_def [symmetric]
    by (simp add: rN mean var)
qed


subsection \<open>A small engine, evaluated\<close>

lemma example_generatePath:
  "generatePath \<lparr>mc_numSimulations = 2, mc_numSteps = 1, mc_seed = 42, mc_generator = g\<rparr> 100 (1 / 2) 1 1
     = ([100, 100 * exp (g 0)],
        \<lparr>mc_numSimulations = 2, mc_numSteps = 1, mc_seed = 42, mc_generator = \<lambda>k. g (Suc k)\<rparr>)"
  by (simp add: generatePath_def draw_def Let_def)

lemma example_generate_paths:
  "generate_paths 100 (1 / 2) 1 1 2 \<lparr>mc_numSimulations = 2, mc_numSteps = 1, mc_seed = 42, mc_generator = g\<rparr>
     = ([[100, 100 * exp (g 0)], [100, 100 * exp (g 1)]],
        \<lparr>mc_numSimulations = 2, mc_numSteps = 1, mc_seed = 42, mc_generator = \<lambda>k. g (Suc (Suc k))\<rparr>)"
  by (simp add: numeral_2_eq_2 example_generatePath Let_def)

lemma exp_one_gt_one: "(1::real) < exp 1"
  by simp



subsection \<open>The draws a valuation consumes\<close>

lemma path_loop_rng: "snd (path_loop drift diffusion n prev g) = (\<lambda>k. g (n + k))"
  by (induction n arbitrary: prev g) (simp_all add: Let_def case_prod_beta draw_def)

lemma path_loop_cong:
  "(\<forall>k<n. g k = g' k) \<Longrightarrow>
     fst (path_loop drift diffusion n prev g) = fst (path_loop drift diffusion n prev g')"
proof (induction n arbitrary: prev g g')
  case 0
  show ?case by simp
next
  case (Suc n)
  have "g 0 = g' 0" "\<forall>k<n. g (Suc k) = g' (Suc k)"
    using Suc.prems by auto
  with Suc.IH [of "\<lambda>k. g (Suc k)" "\<lambda>k. g' (Suc k)"] show ?case
    by (simp add: Let_def case_prod_beta draw_def)
qed

lemma generatePath_snd:
  "snd (generatePath eng S0 r sigma T)
     = eng\<lparr>mc_generator := \<lambda>k. mc_generator eng (nat (mc_numSteps eng) + k)\<rparr>"
  by (simp add: generatePath_def Let_def case_prod_beta path_loop_rng)

lemma generatePath_cong:
  assumes "mc_numSteps e1 = mc_numSteps e2"
    and "\<forall>k<nat (mc_numSteps e1). mc_generator e1 k = mc_generator e2 k"
  shows "fst (generatePath e1 S0 r sigma T) = fst (generatePath e2 S0 r sigma T)"
  using path_loop_cong [OF assms(2)] assms(1)
  by (simp add: generatePath_def Let_def case_prod_beta)

lemma generate_paths_snd:
  "snd (generate_paths S0 r sigma T n eng)
     = eng\<lparr>mc_generator := \<lambda>k. mc_generator eng (n * nat (mc_numSteps eng) + k)\<rparr>"
proof (induction n arbitrary: eng)
  case 0
  show ?case by simp
next
  case (Suc n)
  show ?case
    by (simp add: Let_def case_prod_beta Suc.IH generatePath_snd add.assoc add.left_commute)
qed

lemma generate_paths_cong:
  assumes "mc_numSteps e1 = mc_numSteps e2"
    and "\<forall>k<n * nat (mc_numSteps e1). mc_generator e1 k = mc_generator e2 k"
  shows "fst (generate_paths S0 r sigma T n e1) = fst (generate_paths S0 r sigma T n e2)"
  using assms
proof (induction n arbitrary: e1 e2)
  case 0
  show ?case by simp
next
  case (Suc n)
  let ?M = "nat (mc_numSteps e1)"
  let ?e1 = "snd (generatePath e1 S0 r sigma T)"
  let ?e2 = "snd (generatePath e2 S0 r sigma T)"
  have h: "fst (generatePath e1 S0 r sigma T) = fst (generatePath e2 S0 r sigma T)"
    using Suc.prems by (intro generatePath_cong) auto
  have "mc_numSteps ?e1 = mc_numSteps ?e2"
    using Suc.prems(1) by (simp add: generatePath_snd)
  moreover have "\<forall>k<n * nat (mc_numSteps ?e1). mc_generator ?e1 k = mc_generator ?e2 k"
    using Suc.prems by (simp add: generatePath_snd)
  ultimately have "fst (generate_paths S0 r sigma T n ?e1) = fst (generate_paths S0 r sigma T n ?e2)"
    by (rule Suc.IH)
  with h show ?case by (simp add: Let_def case_prod_beta)
qed

lemma priceEuropean_snd:
  "snd (priceEuropean eng option S0 r sigma)
     = snd (generate_paths S0 r sigma (opt_maturity option) (nat (mc_numSimulations eng)) eng)"
  by (simp add: priceEuropean_def Let_def case_prod_beta european_payoffs_paths)

lemma priceAmerican_snd:
  "snd (priceAmerican eng option S0 r sigma)
     = snd (generate_paths S0 r sigma (opt_maturity option) (nat (mc_numSimulations eng)) eng)"
  by (simp add: priceAmerican_def Let_def case_prod_beta)

lemma price_cong:
  assumes "mc_numSimulations e1 = mc_numSimulations e2" "mc_numSteps e1 = mc_numSteps e2"
    and "fst (generate_paths S0 r sigma (opt_maturity option) (nat (mc_numSimulations e1)) e1)
       = fst (generate_paths S0 r sigma (opt_maturity option) (nat (mc_numSimulations e1)) e2)"
  shows "fst (priceEuropean e1 option S0 r sigma) = fst (priceEuropean e2 option S0 r sigma)"
    and "fst (priceAmerican e1 option S0 r sigma) = fst (priceAmerican e2 option S0 r sigma)"
  using assms
  by (simp_all add: priceEuropean_def priceAmerican_def Let_def case_prod_beta european_payoffs_paths)

lemma make_result_price: "res_price (make_result p se n) = double_round p"
  by (simp add: make_result_def Let_def)

lemma example_price:
  "res_price (fst (priceEuropean
       \<lparr>mc_numSimulations = 2, mc_numSteps = 1, mc_seed = 42, mc_generator = g\<rparr>
       \<lparr>opt_strike = 100, opt_maturity = 1, opt_type = CALL, opt_style = EUROPEAN\<rparr> 100 (1 / 2) 1))
     = double_round
         (exp (- (1 / 2)) * ((max (100 * exp (g 0) - 100) 0 + max (100 * exp (g 1) - 100) 0) / 2))"
proof -
  let ?E = "\<lparr>mc_numSimulations = 2, mc_numSteps = 1, mc_seed = 42, mc_generator = g\<rparr>"
  have "(0::int) < mc_numSimulations ?E" by simp
  from priceEuropean_result [OF this] show ?thesis
    by (simp add: make_result_price example_generate_paths sample_mean_def payoff_def)
qed

subsection \<open>The backward-induction step, path by path\<close>










lemma discount_otm_fold_itm:
  "set js \<subseteq> set itm \<Longrightarrow>
     fold (\<lambda>i cf. (let isITM = (i \<in> set itm)
                   in if \<not> isITM then cf[i := cf ! i * discount] else cf)) js cf = cf"
  by (induction js arbitrary: cf) (simp_all add: Let_def)

lemma discount_otm_all_itm:
  "set [0..<N] \<subseteq> set itm \<Longrightarrow> discount_otm discount itm N cf = cf"
  unfolding discount_otm_def by (rule discount_otm_fold_itm)

subsection \<open>Eleven in-the-money paths, evaluated\<close>

lemma upt_11: "[0..<11] = [0, 1, 2, 3, 4, 5, 6, 7, 8, 9, 10]"
  by (simp add: upt_rec)

lemma example_collect:
  "collect_itm \<lparr>opt_strike = 100, opt_maturity = 1, opt_type = PUT, opt_style = AMERICAN\<rparr>
      [[100, 80, 100], [100, 81, 96], [100, 82, 92], [100, 83, 88], [100, 84, 84], [100, 85, 80],
       [100, 86, 76], [100, 87, 72], [100, 88, 68], [100, 89, 64], [100, 90, 60]]
      (1 / 2) 11 1 [0, 4, 8, 12, 16, 20, 24, 28, 32, 36, 40]
   = ([0, 1, 2, 3, 4, 5, 6, 7, 8, 9, 10],
      [80, 81, 82, 83, 84, 85, 86, 87, 88, 89, 90],
      [0, 2, 4, 6, 8, 10, 12, 14, 16, 18, 20])"
  by (simp add: collect_itm_def upt_11 payoff_def)

lemma example_sums:
  "regression_sums [80, 81, 82, 83, 84, 85, 86, 87, 88, 89, 90]
      [0, 2, 4, 6, 8, 10, 12, 14, 16, 18, 20]
   = (935, 79585, 6783425, 578977333, 110, 9570, 833250)"
  by (simp add: regression_sums_def upt_11)

lemma example_fit:
  "least_squares_quadratic [80, 81, 82, 83, 84, 85, 86, 87, 88, 89, 90]
      [0, 2, 4, 6, 8, 10, 12, 14, 16, 18, 20] = Some (- 160, 2, 0)"
  by (simp add: least_squares_quadratic_def upt_11 det3_def)

lemma example_exercise_loop:
  "exercise_loop \<lparr>opt_strike = 100, opt_maturity = 1, opt_type = PUT, opt_style = AMERICAN\<rparr>
      [[100, 80, 100], [100, 81, 96], [100, 82, 92], [100, 83, 88], [100, 84, 84], [100, 85, 80],
       [100, 86, 76], [100, 87, 72], [100, 88, 68], [100, 89, 64], [100, 90, 60]]
      (1 / 2) 1 10 [0, 1, 2, 3, 4, 5, 6, 7, 8, 9, 10] [0, 4, 8, 12, 16, 20, 24, 28, 32, 36, 40]
   = [20, 19, 18, 17, 16, 15, 14, 13, 12, 11, 20]"
  by (simp add: exercise_loop_def payoff_def)


section \<open>Claims about the Monte Carlo engine\<close>




text \<open>
  Claim C9. The constructor accepts \<open>numSimulations = 1\<close> with any positive step count;
  then \<open>numSimulations - 1\<close> is zero, both valuations divide the sum of squares by it
  unguarded, and the standard error they return is not a finite number.
\<close>

theorem single_sample_standardError:
  assumes "0 < M"
  shows "\<exists>eng. MonteCarloEngine_new normals 1 M seed = Inr eng
           \<and> mc_numSimulations eng - 1 = 0
           \<and> res_standardError (fst (priceEuropean eng option S0 r sigma)) = None
           \<and> res_standardError (fst (priceAmerican eng option S0 r sigma)) = None
           \<and> res_standardError (fst (MonteCarloEngine_price eng option S0 r sigma)) = None"
  using assms
  by (simp add: MonteCarloEngine_new_def MonteCarloEngine_price_def priceEuropean_def
      priceAmerican_def Let_def case_prod_beta fdiv_def make_result_def)

theorem single_sample_standardError_witness:
  "(0::int) < 1
   \<and> MonteCarloEngine_new (\<lambda>seed k. real k) 1 1 42
       = Inr \<lparr>mc_numSimulations = 1, mc_numSteps = 1, mc_seed = 42, mc_generator = \<lambda>k. real k\<rparr>
   \<and> res_standardError (fst (priceEuropean
         \<lparr>mc_numSimulations = 1, mc_numSteps = 1, mc_seed = 42, mc_generator = \<lambda>k. real k\<rparr>
         \<lparr>opt_strike = 100, opt_maturity = 1, opt_type = CALL, opt_style = EUROPEAN\<rparr> 100 (1 / 2) 1)) = None
   \<and> res_standardError (fst (priceAmerican
         \<lparr>mc_numSimulations = 1, mc_numSteps = 1, mc_seed = 42, mc_generator = \<lambda>k. real k\<rparr>
         \<lparr>opt_strike = 100, opt_maturity = 1, opt_type = CALL, opt_style = AMERICAN\<rparr> 100 (1 / 2) 1)) = None"
proof -
  have m: "(0::int) < 1" by simp
  have new: "MonteCarloEngine_new (\<lambda>seed k. real k) 1 1 42
       = Inr \<lparr>mc_numSimulations = 1, mc_numSteps = 1, mc_seed = 42, mc_generator = \<lambda>k. real k\<rparr>"
    by (simp add: MonteCarloEngine_new_def)
  from single_sample_standardError [OF m, of "\<lambda>seed k. real k" 42
      "\<lparr>opt_strike = 100, opt_maturity = 1, opt_type = CALL, opt_style = EUROPEAN\<rparr>" 100 "1 / 2" 1]
    single_sample_standardError [OF m, of "\<lambda>seed k. real k" 42
      "\<lparr>opt_strike = 100, opt_maturity = 1, opt_type = CALL, opt_style = AMERICAN\<rparr>" 100 "1 / 2" 1]
    new m
  show ?thesis by auto
qed

text \<open>
  Claim C2, as stated, fails for two successive calls on one engine: the generator is
  seeded once, in the constructor, and a valuation leaves it advanced. With the draws
  0, 1, 2, 3, ... an engine of two simulations of one step prices a call from the draws 0
  and 1 in its first call and from the draws 2 and 3 in its second, and the second price is
  larger.
\<close>

theorem successive_calls_differ:
  "res_price (fst (MonteCarloEngine_price
       \<lparr>mc_numSimulations = 2, mc_numSteps = 1, mc_seed = 42, mc_generator = \<lambda>k. real k\<rparr>
       \<lparr>opt_strike = 100, opt_maturity = 1, opt_type = CALL, opt_style = EUROPEAN\<rparr> 100 (1 / 2) 1))
   < res_price (fst (MonteCarloEngine_price
       (snd (MonteCarloEngine_price
          \<lparr>mc_numSimulations = 2, mc_numSteps = 1, mc_seed = 42, mc_generator = \<lambda>k. real k\<rparr>
          \<lparr>opt_strike = 100, opt_maturity = 1, opt_type = CALL, opt_style = EUROPEAN\<rparr> 100 (1 / 2) 1))
       \<lparr>opt_strike = 100, opt_maturity = 1, opt_type = CALL, opt_style = EUROPEAN\<rparr> 100 (1 / 2) 1))"
proof -
  let ?E = "\<lparr>mc_numSimulations = 2, mc_numSteps = 1, mc_seed = 42, mc_generator = \<lambda>k. real k\<rparr>"
  let ?E1 = "\<lparr>mc_numSimulations = 2, mc_numSteps = 1, mc_seed = 42, mc_generator = \<lambda>k. real (Suc (Suc k))\<rparr>"
  let ?opt = "\<lparr>opt_strike = 100, opt_maturity = 1, opt_type = CALL, opt_style = EUROPEAN\<rparr>"
  have nxt: "snd (MonteCarloEngine_price ?E ?opt 100 (1 / 2) 1) = ?E1"
    by (simp add: MonteCarloEngine_price_def priceEuropean_snd example_generate_paths
        del: of_nat_Suc)
  have eu: "MonteCarloEngine_price e ?opt 100 (1 / 2) 1 = priceEuropean e ?opt 100 (1 / 2) 1" for e
    by (simp add: MonteCarloEngine_price_def)
  let ?A = "exp (- (1 / 2)) * ((100 * exp 1 - 100) / (2::real))"
  let ?B = "exp (- (1 / 2)) * ((100 * exp 2 - 100 + (100 * exp 3 - 100)) / (2::real))"
  have m1: "(max (100 * exp (real 0) - 100) 0 + max (100 * exp (real 1) - 100) 0) / 2
      = (100 * exp 1 - 100) / 2"
    using exp_one_gt_one by simp
  have m2: "(max (100 * exp (real (Suc (Suc 0))) - 100) 0 + max (100 * exp (real (Suc (Suc 1))) - 100) 0) / 2
      = (100 * exp 2 - 100 + (100 * exp 3 - 100)) / 2"
    by simp
  have p1: "res_price (fst (MonteCarloEngine_price ?E ?opt 100 (1 / 2) 1)) = double_round ?A"
    unfolding eu using example_price [of "\<lambda>k. real k"] unfolding m1 .
  have p2: "res_price (fst (MonteCarloEngine_price ?E1 ?opt 100 (1 / 2) 1)) = double_round ?B"
    unfolding eu using example_price [of "\<lambda>k. real (Suc (Suc k))"] unfolding m2 .
  have e1: "exp (1::real) \<le> 3" by (rule exp_le)
  have e2: "(5::real) \<le> exp 2" using exp_lower_Taylor_quadratic [of "2::real"] by simp
  have e3: "(8::real) \<le> exp 3" using exp_lower_Taylor_quadratic [of "3::real"] by simp
  have h: "(1 / 2 :: real) \<le> exp (- (1 / 2))"
    using exp_ge_add_one_self [of "- (1 / 2) :: real"] by simp
  have "?A \<le> 1 * 100"
    using e1 exp_one_gt_one by (intro mult_mono) simp_all
  then have A: "?A \<le> 2 powr of_int 7" by simp
  have "(1 / 2) * 512 \<le> ?B"
    using e2 e3 h by (intro mult_mono) simp_all
  then have B: "2 powr of_int 8 \<le> ?B" by simp
  have "double_round ?A \<le> 2 powr of_int 7"
    using double_round_mono [OF A] unfolding double_round_two_powr .
  moreover have "2 powr of_int 8 \<le> double_round ?B"
    using double_round_mono [OF B] unfolding double_round_two_powr .
  moreover have "(2::real) powr of_int 7 < 2 powr of_int 8" by simp
  ultimately have "double_round ?A < double_round ?B" by linarith
  then show ?thesis unfolding nxt p1 p2 .
qed

text \<open>
  Claim C2, amended. Two engines constructed from the same seed and counts return the same
  result and are left in the same state by a \<open>price\<close> call with the same arguments. More
  generally the result of a call depends on the generator only through its next
  \<open>numSimulations \<cdot> numSteps\<close> draws, and the call leaves the engine with exactly these
  draws consumed and nothing else changed: a later call on the same engine continues in the
  stream and is not a repetition of the first.
\<close>

theorem price_reproducible:
  "(MonteCarloEngine_new normals N M seed = Inr e1 \<and> MonteCarloEngine_new normals N M seed = Inr e2 \<longrightarrow>
      MonteCarloEngine_price e1 option S0 r sigma = MonteCarloEngine_price e2 option S0 r sigma)
   \<and> (mc_numSimulations e1 = mc_numSimulations e2 \<and> mc_numSteps e1 = mc_numSteps e2
        \<and> (\<forall>k < nat (mc_numSimulations e1) * nat (mc_numSteps e1). mc_generator e1 k = mc_generator e2 k)
      \<longrightarrow> fst (MonteCarloEngine_price e1 option S0 r sigma) = fst (MonteCarloEngine_price e2 option S0 r sigma))
   \<and> snd (MonteCarloEngine_price e1 option S0 r sigma)
        = e1\<lparr>mc_generator := \<lambda>k. mc_generator e1 (nat (mc_numSimulations e1) * nat (mc_numSteps e1) + k)\<rparr>"
proof (intro conjI impI)
  assume "MonteCarloEngine_new normals N M seed = Inr e1 \<and> MonteCarloEngine_new normals N M seed = Inr e2"
  then have "Inr e1 = (Inr e2 :: error + MonteCarloEngine)" by metis
  then have "e1 = e2" by simp
  then show "MonteCarloEngine_price e1 option S0 r sigma = MonteCarloEngine_price e2 option S0 r sigma"
    by simp
next
  assume a: "mc_numSimulations e1 = mc_numSimulations e2 \<and> mc_numSteps e1 = mc_numSteps e2
        \<and> (\<forall>k < nat (mc_numSimulations e1) * nat (mc_numSteps e1). mc_generator e1 k = mc_generator e2 k)"
  then have "fst (generate_paths S0 r sigma (opt_maturity option) (nat (mc_numSimulations e1)) e1)
       = fst (generate_paths S0 r sigma (opt_maturity option) (nat (mc_numSimulations e1)) e2)"
    by (intro generate_paths_cong) simp_all
  with a price_cong [of e1 e2 S0 r sigma option]
  show "fst (MonteCarloEngine_price e1 option S0 r sigma) = fst (MonteCarloEngine_price e2 option S0 r sigma)"
    by (simp add: MonteCarloEngine_price_def)
next
  show "snd (MonteCarloEngine_price e1 option S0 r sigma)
        = e1\<lparr>mc_generator := \<lambda>k. mc_generator e1 (nat (mc_numSimulations e1) * nat (mc_numSteps e1) + k)\<rparr>"
    by (simp add: MonteCarloEngine_price_def priceEuropean_snd priceAmerican_snd generate_paths_snd)
qed

theorem price_reproducible_witness:
  "MonteCarloEngine_new (\<lambda>seed k. real k) 2 1 42
     = Inr \<lparr>mc_numSimulations = 2, mc_numSteps = 1, mc_seed = 42, mc_generator = \<lambda>k. real k\<rparr>
   \<and> fst (MonteCarloEngine_price
         \<lparr>mc_numSimulations = 2, mc_numSteps = 1, mc_seed = 42, mc_generator = \<lambda>k. real k\<rparr>
         \<lparr>opt_strike = 100, opt_maturity = 1, opt_type = CALL, opt_style = EUROPEAN\<rparr> 100 (1 / 2) 1)
     = fst (MonteCarloEngine_price
         \<lparr>mc_numSimulations = 2, mc_numSteps = 1, mc_seed = 42, mc_generator = \<lambda>k. if k < 2 then real k else 0\<rparr>
         \<lparr>opt_strike = 100, opt_maturity = 1, opt_type = CALL, opt_style = EUROPEAN\<rparr> 100 (1 / 2) 1)
   \<and> snd (MonteCarloEngine_price
         \<lparr>mc_numSimulations = 2, mc_numSteps = 1, mc_seed = 42, mc_generator = \<lambda>k. real k\<rparr>
         \<lparr>opt_strike = 100, opt_maturity = 1, opt_type = CALL, opt_style = EUROPEAN\<rparr> 100 (1 / 2) 1)
     = \<lparr>mc_numSimulations = 2, mc_numSteps = 1, mc_seed = 42, mc_generator = \<lambda>k. real (2 + k)\<rparr>"
proof -
  let ?E = "\<lparr>mc_numSimulations = 2, mc_numSteps = 1, mc_seed = 42, mc_generator = \<lambda>k. real k\<rparr>"
  let ?E' = "\<lparr>mc_numSimulations = 2, mc_numSteps = 1, mc_seed = 42,
               mc_generator = \<lambda>k. if k < 2 then real k else 0\<rparr>"
  let ?opt = "\<lparr>opt_strike = 100, opt_maturity = 1, opt_type = CALL, opt_style = EUROPEAN\<rparr>"
  have new: "MonteCarloEngine_new (\<lambda>seed k. real k) 2 1 42 = Inr ?E"
    by (simp add: MonteCarloEngine_new_def)
  have agree: "mc_numSimulations ?E = mc_numSimulations ?E' \<and> mc_numSteps ?E = mc_numSteps ?E'
      \<and> (\<forall>k < nat (mc_numSimulations ?E) * nat (mc_numSteps ?E). mc_generator ?E k = mc_generator ?E' k)"
    by simp
  note inst = price_reproducible [of "\<lambda>seed k. real k" 2 1 42 ?E ?E' ?opt 100 "1 / 2" 1]
  from inst agree have "fst (MonteCarloEngine_price ?E ?opt 100 (1 / 2) 1)
      = fst (MonteCarloEngine_price ?E' ?opt 100 (1 / 2) 1)"
    by blast
  moreover from inst have "snd (MonteCarloEngine_price ?E ?opt 100 (1 / 2) 1)
      = \<lparr>mc_numSimulations = 2, mc_numSteps = 1, mc_seed = 42, mc_generator = \<lambda>k. real (2 + k)\<rparr>"
    by simp
  ultimately show ?thesis using new by blast
qed




text \<open>
  Claim C1 does not hold of the code: the sums for the normal equations are accumulated,
  but the continuation value every in-the-money path is compared with is \<open>meanY\<close>, the mean
  of the discounted cash flows, not the fitted value at the path's spot. Eleven paths of a
  put struck at 100, spots 80, ..., 90 at the step, cash flows 0, 4, ..., 40 (the payoffs at
  maturity), discount factor 1/2: the discounted cash flows lie on the line \<open>2 x - 160\<close>,
  which is therefore the least-squares fit, and \<open>meanY = 10\<close>. The path with spot 88 has
  the exercise value 12, below its fitted continuation value 16, yet the step exercises it
  (cash flow 12, not \<open>32 \<cdot> 1/2 = 16\<close>), as it does the paths with spots 87 and 89.
\<close>

theorem backward_step_compares_with_mean:
  "map (\<lambda>i. payoff \<lparr>opt_strike = 100, opt_maturity = 1, opt_type = PUT, opt_style = AMERICAN\<rparr> ([[100, 80, 100], [100, 81, 96], [100, 82, 92], [100, 83, 88], [100, 84, 84], [100, 85, 80],
         [100, 86, 76], [100, 87, 72], [100, 88, 68], [100, 89, 64], [100, 90, 60]] ! i ! 2)) [0..<11] = [0, 4, 8, 12, 16, 20, 24, 28, 32, 36, 40]
   \<and> collect_itm \<lparr>opt_strike = 100, opt_maturity = 1, opt_type = PUT, opt_style = AMERICAN\<rparr>
        [[100, 80, 100], [100, 81, 96], [100, 82, 92], [100, 83, 88], [100, 84, 84], [100, 85, 80],
         [100, 86, 76], [100, 87, 72], [100, 88, 68], [100, 89, 64], [100, 90, 60]]
        (1 / 2) 11 1 [0, 4, 8, 12, 16, 20, 24, 28, 32, 36, 40]
      = ([0, 1, 2, 3, 4, 5, 6, 7, 8, 9, 10], [80, 81, 82, 83, 84, 85, 86, 87, 88, 89, 90], [0, 2, 4, 6, 8, 10, 12, 14, 16, 18, 20])
   \<and> payoff \<lparr>opt_strike = 100, opt_maturity = 1, opt_type = PUT, opt_style = AMERICAN\<rparr> ([[100, 80, 100], [100, 81, 96], [100, 82, 92], [100, 83, 88], [100, 84, 84], [100, 85, 80],
         [100, 86, 76], [100, 87, 72], [100, 88, 68], [100, 89, 64], [100, 90, 60]] ! 8 ! 1) = 12
   \<and> fitted_prediction [80, 81, 82, 83, 84, 85, 86, 87, 88, 89, 90] [0, 2, 4, 6, 8, 10, 12, 14, 16, 18, 20] ([[100, 80, 100], [100, 81, 96], [100, 82, 92], [100, 83, 88], [100, 84, 84], [100, 85, 80],
         [100, 86, 76], [100, 87, 72], [100, 88, 68], [100, 89, 64], [100, 90, 60]] ! 8 ! 1) = Some 16
   \<and> backward_step \<lparr>opt_strike = 100, opt_maturity = 1, opt_type = PUT, opt_style = AMERICAN\<rparr>
        [[100, 80, 100], [100, 81, 96], [100, 82, 92], [100, 83, 88], [100, 84, 84], [100, 85, 80],
         [100, 86, 76], [100, 87, 72], [100, 88, 68], [100, 89, 64], [100, 90, 60]]
        (1 / 2) 11 1 [0, 4, 8, 12, 16, 20, 24, 28, 32, 36, 40]
      = [20, 19, 18, 17, 16, 15, 14, 13, 12, 11, 20]"
proof (intro conjI)
  show "map (\<lambda>i. payoff \<lparr>opt_strike = 100, opt_maturity = 1, opt_type = PUT, opt_style = AMERICAN\<rparr> ([[100, 80, 100], [100, 81, 96], [100, 82, 92], [100, 83, 88], [100, 84, 84], [100, 85, 80],
         [100, 86, 76], [100, 87, 72], [100, 88, 68], [100, 89, 64], [100, 90, 60]] ! i ! 2)) [0..<11] = [0, 4, 8, 12, 16, 20, 24, 28, 32, 36, 40]"
    by (simp add: upt_11 payoff_def)
  show "collect_itm \<lparr>opt_strike = 100, opt_maturity = 1, opt_type = PUT, opt_style = AMERICAN\<rparr>
        [[100, 80, 100], [100, 81, 96], [100, 82, 92], [100, 83, 88], [100, 84, 84], [100, 85, 80],
         [100, 86, 76], [100, 87, 72], [100, 88, 68], [100, 89, 64], [100, 90, 60]]
        (1 / 2) 11 1 [0, 4, 8, 12, 16, 20, 24, 28, 32, 36, 40]
      = ([0, 1, 2, 3, 4, 5, 6, 7, 8, 9, 10], [80, 81, 82, 83, 84, 85, 86, 87, 88, 89, 90], [0, 2, 4, 6, 8, 10, 12, 14, 16, 18, 20])"
    by (rule example_collect)
  show "payoff \<lparr>opt_strike = 100, opt_maturity = 1, opt_type = PUT, opt_style = AMERICAN\<rparr> ([[100, 80, 100], [100, 81, 96], [100, 82, 92], [100, 83, 88], [100, 84, 84], [100, 85, 80],
         [100, 86, 76], [100, 87, 72], [100, 88, 68], [100, 89, 64], [100, 90, 60]] ! 8 ! 1) = 12"
    by (simp add: payoff_def)
  show "fitted_prediction [80, 81, 82, 83, 84, 85, 86, 87, 88, 89, 90] [0, 2, 4, 6, 8, 10, 12, 14, 16, 18, 20] ([[100, 80, 100], [100, 81, 96], [100, 82, 92], [100, 83, 88], [100, 84, 84], [100, 85, 80],
         [100, 86, 76], [100, 87, 72], [100, 88, 68], [100, 89, 64], [100, 90, 60]] ! 8 ! 1) = Some 16"
    by (simp add: fitted_prediction_def example_fit)
  show "backward_step \<lparr>opt_strike = 100, opt_maturity = 1, opt_type = PUT, opt_style = AMERICAN\<rparr>
        [[100, 80, 100], [100, 81, 96], [100, 82, 92], [100, 83, 88], [100, 84, 84], [100, 85, 80],
         [100, 86, 76], [100, 87, 72], [100, 88, 68], [100, 89, 64], [100, 90, 60]]
        (1 / 2) 11 1 [0, 4, 8, 12, 16, 20, 24, 28, 32, 36, 40]
      = [20, 19, 18, 17, 16, 15, 14, 13, 12, 11, 20]"
  proof -
    have all: "set [0..<11] \<subseteq> set [0, 1, 2, 3, 4, 5, 6, 7, 8, 9, 10 :: nat]"
      unfolding upt_11 by (rule subset_refl)
    have m: "(110::real) / real (length [80, 81, 82, 83, 84, 85, 86, 87, 88, 89, 90 :: real]) = 10"
      by simp
    show ?thesis
      unfolding backward_step_def example_collect Let_def prod.case example_sums m
      by (simp only: example_exercise_loop discount_otm_all_itm [OF all] list.size, simp)
  qed
qed

end
